theory Spec2Isabelle
  imports Complex_Main "HOL-Library.Word" "HOL-Library.Sublist"
begin

section \<open>Data model (internal/state/state.go)\<close>

text \<open>
  Go's \<open>int64\<close> is a 64-bit word: \<open>+\<close> wraps, \<open>sint\<close> reads it, \<open>\<le>s\<close> and \<open><s\<close>
  are Go's signed comparisons. Go's \<open>int\<close> is taken at its 64-bit width (amd64, arm64).
  Byte slices and strings are \<open>string\<close> (a list of 8-bit characters); a \<open>time.Time\<close> is
  a natural number of ticks, the zero time being \<open>None\<close> where the code asks \<open>IsZero\<close>.
\<close>

type_synonym int64 = "64 word"
type_synonym bytes = string

text \<open>
  Go \<open>error\<close> values. \<open>ErrNotExist\<close> is the error \<open>os.IsNotExist\<close> recognises,
  \<open>Canceled\<close> is \<open>ctx.Err()\<close> of a cancelled context, \<open>NilDereference\<close> the run-time
  panic of reading through a nil pointer, \<open>Wrapped p e\<close> is \<open>fmt.Errorf(p + ": %w", e)\<close>.
\<close>

datatype error = ErrNotExist | Canceled | NilDereference | Failure string | Wrapped string error

fun Error :: "error \<Rightarrow> string" where
  "Error ErrNotExist = ''file does not exist''"
| "Error Canceled = ''context canceled''"
| "Error NilDereference = ''invalid memory address or nil pointer dereference''"
| "Error (Failure m) = m"
| "Error (Wrapped p e) = p @ '': '' @ Error e"

definition IsNotExist :: "error \<Rightarrow> bool" where
  "IsNotExist err = (err = ErrNotExist)"

record FileState =
  DriveID :: string
  Name :: string
  Size :: int64
  Downloaded :: bool
  LocalPath :: string
  BytesDownloaded :: int64

record UploadState =
  TotalPhotos :: int64
  UploadedPhotos :: int64
  UploadedFiles :: "string list"

record JobState =
  ID :: string
  ServerURL :: string
  Status :: string
  Files :: "FileState list"
  UploadState :: "UploadState option"
  LastError :: string
  CreatedAt :: nat
  UpdatedAt :: nat

section \<open>The world outside the program\<close>

text \<open>
  What the code asks of the operating system, the Go library and the two remote services
  is a parameter of the model. An \<open>env\<close> holds what stays fixed during a run; a
  \<open>world\<close> holds what the run changes or consumes.
\<close>

record drive_request =
  req_file :: string
  req_range :: "int64 option"

datatype read_end = EOF | ReadErr error

text \<open>
  A response body as the sequence of results of \<open>Body.Read\<close>: \<open>Chunk b rest\<close> is a read
  that returns the bytes \<open>b\<close> and a nil error, \<open>Last b e\<close> the read that returns \<open>b\<close>
  together with \<open>io.EOF\<close> or another error. Bodies are finite.
\<close>

datatype body = Chunk bytes body | Last bytes read_end

record response =
  StatusCode :: nat
  StatusText :: string
  Body :: body

record zip_entry =
  entry_name :: string
  entry_is_dir :: bool
  entry_data :: "error + bytes"
  entry_modified :: "nat option"

record upload_request =
  up_filename :: string
  up_content :: bytes
  up_deviceAssetId :: string
  up_deviceId :: string
  up_fileCreatedAt :: nat
  up_fileModifiedAt :: nat

record upload_response =
  up_status :: nat
  up_body :: string

record env =
  goos :: string
  Getenv :: "string \<Rightarrow> string"
  UserHomeDir :: "error + string"
  Join :: "string list \<Rightarrow> string"
  Dir :: "string \<Rightarrow> string"
  ToLower :: "string \<Rightarrow> string"
  mkdir_err :: "string \<Rightarrow> error option"
  read_err :: "string \<Rightarrow> error option"
  open_err :: "string \<Rightarrow> error option"
  marshal :: "JobState \<Rightarrow> error + bytes"
  unmarshal :: "bytes \<Rightarrow> error + JobState"
  drive :: "drive_request \<Rightarrow> error + response"
  unzip :: "bytes \<Rightarrow> error + zip_entry list"
  immich :: "upload_request list \<Rightarrow> upload_request \<Rightarrow> error + upload_response"
  json_message :: "string \<Rightarrow> string option"

text \<open>
  \<open>files\<close> is the local file system (path to content). \<open>polls\<close> is the context:
  \<open>Some n\<close> lets \<open>n\<close> more polls of \<open>ctx.Done()\<close> pass before the context is
  cancelled, \<open>None\<close> is a context that is never cancelled. \<open>write_faults\<close> schedules a
  failing write: \<open>Some (n, k)\<close> lets \<open>n\<close> writes succeed and makes the next one fail
  after \<open>k\<close> of its bytes. The three logs record the requests sent to Drive, the
  uploads sent to the ingestion service and the calls of the progress callback.
\<close>

record world =
  files :: "string \<Rightarrow> bytes option"
  polls :: "nat option"
  write_faults :: "(nat \<times> nat) option"
  drive_log :: "drive_request list"
  immich_log :: "upload_request list"
  progress_log :: "(string \<times> int64 \<times> int64 \<times> string) list"
  clock :: nat

definition ctx_done :: "world \<Rightarrow> bool \<times> world" where
  "ctx_done w =
     (case polls w of
        None \<Rightarrow> (False, w)
      | Some 0 \<Rightarrow> (True, w)
      | Some (Suc n) \<Rightarrow> (False, w\<lparr>polls := Some n\<rparr>))"

definition append_file :: "string \<Rightarrow> bytes \<Rightarrow> world \<Rightarrow> world" where
  "append_file path b w =
     w\<lparr>files := (files w)(path := Some (case files w path of None \<Rightarrow> b | Some c \<Rightarrow> c @ b))\<rparr>"

definition Write :: "string \<Rightarrow> bytes \<Rightarrow> world \<Rightarrow> error option \<times> world" where
  "Write path b w =
     (case write_faults w of
        None \<Rightarrow> (None, append_file path b w)
      | Some (n, k) \<Rightarrow>
          (case n of
             0 \<Rightarrow> (Some (Failure ''write failed''),
                   append_file path (take k b) (w\<lparr>write_faults := None\<rparr>))
           | Suc m \<Rightarrow> (None, append_file path b (w\<lparr>write_faults := Some (m, k)\<rparr>))))"

definition ReadFile :: "env \<Rightarrow> world \<Rightarrow> string \<Rightarrow> error + bytes" where
  "ReadFile e w path =
     (case read_err e path of
        Some err \<Rightarrow> Inl err
      | None \<Rightarrow> (case files w path of None \<Rightarrow> Inl ErrNotExist | Some data \<Rightarrow> Inr data))"

text \<open>
  \<open>os.WriteFile\<close>: open with create and truncate, write, close. It does not go through
  a temporary file: the bytes of the old content are gone once the file is opened.
\<close>

definition WriteFile :: "env \<Rightarrow> string \<Rightarrow> bytes \<Rightarrow> world \<Rightarrow> error option \<times> world" where
  "WriteFile e path data w =
     (case open_err e path of
        Some err \<Rightarrow> (Some err, w)
      | None \<Rightarrow> Write path data (w\<lparr>files := (files w)(path := Some [])\<rparr>))"

section \<open>Checkpoint store (internal/state/state.go)\<close>

definition appDataDir :: "env \<Rightarrow> error + string" where
  "appDataDir e =
     (if goos e = ''darwin'' then
        (case UserHomeDir e of
           Inl err \<Rightarrow> Inl err
         | Inr home \<Rightarrow> Inr (Join e [home, ''Library'', ''Application Support'', ''ImmichImporter'']))
      else if goos e = ''windows'' then
        (let appData = Getenv e ''APPDATA'' in
         if appData = [] then
           (case UserHomeDir e of
              Inl err \<Rightarrow> Inl err
            | Inr home \<Rightarrow> Inr (Join e [Join e [home, ''AppData'', ''Roaming''], ''ImmichImporter'']))
         else Inr (Join e [appData, ''ImmichImporter'']))
      else
        (case UserHomeDir e of
           Inl err \<Rightarrow> Inl err
         | Inr home \<Rightarrow>
             (let configDir = Getenv e ''XDG_CONFIG_HOME'' in
              if configDir = [] then Inr (Join e [Join e [home, ''.config''], ''immich-importer''])
              else Inr (Join e [configDir, ''immich-importer'']))))"

definition statePath :: "env \<Rightarrow> error + string" where
  "statePath e =
     (case appDataDir e of Inl err \<Rightarrow> Inl err | Inr dir \<Rightarrow> Inr (Join e [dir, ''state.json'']))"

definition Load :: "env \<Rightarrow> world \<Rightarrow> error + JobState option" where
  "Load e w =
     (case statePath e of
        Inl err \<Rightarrow> Inl err
      | Inr path \<Rightarrow>
          (case ReadFile e w path of
             Inl err \<Rightarrow> if IsNotExist err then Inr None else Inl err
           | Inr data \<Rightarrow>
               (case unmarshal e data of
                  Inl err \<Rightarrow> Inl err
                | Inr state \<Rightarrow> Inr (Some state))))"

definition Save :: "env \<Rightarrow> JobState \<Rightarrow> world \<Rightarrow> error option \<times> JobState \<times> world" where
  "Save e s w =
     (case statePath e of
        Inl err \<Rightarrow> (Some err, s, w)
      | Inr path \<Rightarrow>
          (let s1 = s\<lparr>UpdatedAt := clock w\<rparr> in
           case mkdir_err e (Dir e path) of
             Some err \<Rightarrow> (Some err, s1, w)
           | None \<Rightarrow>
               (case marshal e s1 of
                  Inl err \<Rightarrow> (Some err, s1, w)
                | Inr data \<Rightarrow>
                    (case WriteFile e path data w of (r, w1) \<Rightarrow> (r, s1, w1)))))"

subsection \<open>Progress accessors\<close>

text \<open>
  \<open>float64\<close> values are modelled by the reals they denote; the conversion of an
  \<open>int64\<close> is exact up to rounding and maps zero, and only zero, to zero. The division
  is written with its divisor tested, so that a division by zero is a result of its own.
\<close>

definition float64 :: "int64 \<Rightarrow> real" where
  "float64 x = real_of_int (sint x)"

definition fdiv :: "real \<Rightarrow> real \<Rightarrow> real option" where
  "fdiv a b = (if b = 0 then None else Some (a / b))"

fun sum_files :: "FileState list \<Rightarrow> int64 \<times> int64 \<Rightarrow> int64 \<times> int64" where
  "sum_files [] acc = acc"
| "sum_files (f # fs) (totalBytes, downloadedBytes) =
     sum_files fs
       (totalBytes + Size f,
        if Downloaded f then downloadedBytes + Size f else downloadedBytes + BytesDownloaded f)"

definition GetDownloadProgress :: "JobState \<Rightarrow> real option" where
  "GetDownloadProgress s =
     (if length (Files s) = 0 then Some 0
      else
        (case sum_files (Files s) (0, 0) of
           (totalBytes, downloadedBytes) \<Rightarrow>
             if totalBytes = 0 then Some 0
             else map_option (\<lambda>q. q * 100) (fdiv (float64 downloadedBytes) (float64 totalBytes))))"

definition GetUploadProgress :: "JobState \<Rightarrow> real option" where
  "GetUploadProgress s =
     (case UploadState s of
        None \<Rightarrow> Some 0
      | Some u \<Rightarrow>
          if TotalPhotos u = 0 then Some 0
          else map_option (\<lambda>q. q * 100) (fdiv (float64 (UploadedPhotos u)) (float64 (TotalPhotos u))))"

section \<open>Range downloader (internal/downloader/downloader.go, internal/google/oauth.go)\<close>

definition GetDownloadDir :: "env \<Rightarrow> error + string" where
  "GetDownloadDir e =
     (case appDataDir e of
        Inl err \<Rightarrow> Inl err
      | Inr dir \<Rightarrow>
          (let downloadDir = Join e [dir, ''downloads''] in
           case mkdir_err e downloadDir of
             Some err \<Rightarrow> Inl err
           | None \<Rightarrow> Inr downloadDir))"

text \<open>The \<open>Range\<close> header is set only when \<open>startByte > 0\<close>; every request is logged.\<close>

definition DownloadFileRange ::
  "env \<Rightarrow> string \<Rightarrow> int64 \<Rightarrow> world \<Rightarrow> (error + response) \<times> world" where
  "DownloadFileRange e fileID startByte w =
     (let req = \<lparr>req_file = fileID,
                 req_range = (if 0 <s startByte then Some startByte else None)\<rparr>
      in (drive e req, w\<lparr>drive_log := drive_log w @ [req]\<rparr>))"

text \<open>
  \<open>os.OpenFile\<close> with \<open>O_CREATE | O_WRONLY\<close> and either \<open>O_APPEND\<close> (the flag
  \<open>app\<close>) or \<open>O_TRUNC\<close>.
\<close>

definition OpenFile :: "env \<Rightarrow> string \<Rightarrow> bool \<Rightarrow> world \<Rightarrow> error + world" where
  "OpenFile e path app w =
     (case open_err e path of
        Some err \<Rightarrow> Inl err
      | None \<Rightarrow>
          Inr (if app then
                 (case files w path of
                    None \<Rightarrow> w\<lparr>files := (files w)(path := Some [])\<rparr>
                  | Some c \<Rightarrow> w)
               else w\<lparr>files := (files w)(path := Some [])\<rparr>))"

text \<open>One pass of the body of the copy loop after the read: write, then count.\<close>

definition write_counted ::
  "string \<Rightarrow> bytes \<Rightarrow> FileState \<Rightarrow> world \<Rightarrow> error option \<times> FileState \<times> world" where
  "write_counted path b file w =
     (if 0 < length b then
        (case Write path b w of
           (Some writeErr, w1) \<Rightarrow> (Some (Wrapped ''failed to write'' writeErr), file, w1)
         | (None, w1) \<Rightarrow>
             (None, file\<lparr>BytesDownloaded := BytesDownloaded file + of_nat (length b)\<rparr>, w1))
      else (None, file, w))"

fun copy_body ::
  "string \<Rightarrow> body \<Rightarrow> FileState \<Rightarrow> world \<Rightarrow> error option \<times> FileState \<times> world" where
  "copy_body path (Chunk b rest) file w =
     (case ctx_done w of
        (cancelled, w1) \<Rightarrow>
          if cancelled then (Some Canceled, file, w1)
          else
            (case write_counted path b file w1 of
               (Some err, file1, w2) \<Rightarrow> (Some err, file1, w2)
             | (None, file1, w2) \<Rightarrow> copy_body path rest file1 w2))"
| "copy_body path (Last b fin) file w =
     (case ctx_done w of
        (cancelled, w1) \<Rightarrow>
          if cancelled then (Some Canceled, file, w1)
          else
            (case write_counted path b file w1 of
               (Some err, file1, w2) \<Rightarrow> (Some err, file1, w2)
             | (None, file1, w2) \<Rightarrow>
                 (case fin of
                    EOF \<Rightarrow> (None, file1, w2)
                  | ReadErr readErr \<Rightarrow> (Some (Wrapped ''failed to read'' readErr), file1, w2))))"

text \<open>The part of \<open>DownloadFile\<close> after the local file has been measured.\<close>

definition fetch ::
  "env \<Rightarrow> string \<Rightarrow> int64 \<Rightarrow> FileState \<Rightarrow> world \<Rightarrow> error option \<times> FileState \<times> world" where
  "fetch e localPath startByte file w =
     (case DownloadFileRange e (DriveID file) startByte w of
        (Inl err, w1) \<Rightarrow> (Some (Wrapped ''failed to download'' err), file, w1)
      | (Inr resp, w1) \<Rightarrow>
          if StatusCode resp \<noteq> 200 \<and> StatusCode resp \<noteq> 206 then
            (Some (Failure (''download failed with status: '' @ StatusText resp)), file, w1)
          else
            (case OpenFile e localPath (0 <s startByte) w1 of
               Inl err \<Rightarrow> (Some (Wrapped ''failed to open file'' err), file, w1)
             | Inr w2 \<Rightarrow>
                 (case copy_body localPath (Body resp) file w2 of
                    (Some err, file1, w3) \<Rightarrow> (Some err, file1, w3)
                  | (None, file1, w3) \<Rightarrow> (None, file1\<lparr>Downloaded := True\<rparr>, w3))))"

definition DownloadFile ::
  "env \<Rightarrow> FileState \<Rightarrow> world \<Rightarrow> error option \<times> FileState \<times> world" where
  "DownloadFile e file w =
     (case GetDownloadDir e of
        Inl err \<Rightarrow> (Some err, file, w)
      | Inr downloadDir \<Rightarrow>
          (let localPath = Join e [downloadDir, Name file];
               file1 = file\<lparr>LocalPath := localPath\<rparr>
           in case files w localPath of
                None \<Rightarrow> fetch e localPath 0 file1 w
              | Some content \<Rightarrow>
                  (let startByte = of_nat (length content);
                       file2 = file1\<lparr>BytesDownloaded := startByte\<rparr>
                   in if 0 <s Size file2 \<and> Size file2 \<le>s startByte
                      then (None, file2\<lparr>Downloaded := True\<rparr>, w)
                      else fetch e localPath startByte file2 w)))"

section \<open>Archive upload processor (internal/importer/importer.go)\<close>

subsection \<open>Library functions on strings and paths\<close>

text \<open>
  \<open>strings.HasSuffix\<close>, \<open>strings.Contains\<close>, and \<open>filepath.Ext\<close> and
  \<open>filepath.Base\<close> with the separator \<open>/\<close>; all four work on the bytes of their
  arguments. \<open>strings.ToLower\<close> maps every Unicode letter to its lower case through the
  tables of the Go library; it is the field \<open>ToLower\<close> of the environment, and nothing
  is assumed of it.
\<close>

definition HasSuffix :: "string \<Rightarrow> string \<Rightarrow> bool" where
  "HasSuffix s suf = (length suf \<le> length s \<and> drop (length s - length suf) s = suf)"

fun Contains :: "string \<Rightarrow> string \<Rightarrow> bool" where
  "Contains [] substr = (substr = [])"
| "Contains (c # s) substr = (take (length substr) (c # s) = substr \<or> Contains s substr)"

fun ext_scan :: "string \<Rightarrow> string \<Rightarrow> string" where
  "ext_scan [] seen = []"
| "ext_scan (c # front) seen =
     (if c = CHR ''/'' then []
      else if c = CHR ''.'' then c # seen
      else ext_scan front (c # seen))"

definition Ext :: "string \<Rightarrow> string" where
  "Ext path = ext_scan (rev path) []"

definition Base :: "string \<Rightarrow> string" where
  "Base path =
     (if path = [] then ''.''
      else
        (let stripped = rev (dropWhile (\<lambda>c. c = CHR ''/'') (rev path));
             elem = rev (takeWhile (\<lambda>c. c \<noteq> CHR ''/'') (rev stripped))
         in if elem = [] then ''/'' else elem))"

definition hex_digit :: "nat \<Rightarrow> char" where
  "hex_digit n = ''0123456789abcdef'' ! (n mod 16)"

definition hex :: "bytes \<Rightarrow> string" where
  "hex b = concat (map (\<lambda>c. [hex_digit (of_char c div 16), hex_digit (of_char c)]) b)"

fun decimal :: "nat \<Rightarrow> string" where
  "decimal n =
     (if n < 10 then [''0123456789'' ! n]
      else decimal (n div 10) @ [''0123456789'' ! (n mod 10)])"

declare decimal.simps [simp del]

text \<open>Go's \<open>%\<close> on signed integers truncates towards zero.\<close>

definition go_rem :: "int \<Rightarrow> int \<Rightarrow> int" where
  "go_rem a b = sgn a * (\<bar>a\<bar> mod \<bar>b\<bar>)"

subsection \<open>The importer\<close>

definition isMediaFile :: "env \<Rightarrow> string \<Rightarrow> bool" where
  "isMediaFile e name =
     (ToLower e (Ext name) \<in> set
        [''.jpg'', ''.jpeg'', ''.png'', ''.gif'', ''.webp'', ''.heic'', ''.heif'', ''.avif'',
         ''.mp4'', ''.mov'', ''.avi'', ''.mkv'', ''.webm'', ''.m4v'', ''.3gp'',
         ''.raw'', ''.cr2'', ''.nef'', ''.arw'', ''.dng'', ''.orf'', ''.rw2''])"

text \<open>
  \<open>uploadAsset\<close>: one POST to the ingestion service, logged. The service answers from
  the uploads it has seen so far. \<open>json_message\<close> is the decoding of the response body:
  the string under the key \<open>message\<close> when the body is a JSON object that has one.
\<close>

definition asset_request :: "string \<Rightarrow> bytes \<Rightarrow> nat \<Rightarrow> upload_request" where
  "asset_request filename content modTime =
     \<lparr>up_filename = filename, up_content = content,
      up_deviceAssetId = ''import-'' @ hex (take (min 32 (length content)) content),
      up_deviceId = ''immich-importer'',
      up_fileCreatedAt = modTime, up_fileModifiedAt = modTime\<rparr>"

definition uploadAsset ::
  "env \<Rightarrow> string \<Rightarrow> bytes \<Rightarrow> nat \<Rightarrow> world \<Rightarrow> error option \<times> world" where
  "uploadAsset e filename content modTime w =
     (let req = asset_request filename content modTime;
          w1 = w\<lparr>immich_log := immich_log w @ [req]\<rparr>
      in case immich e (immich_log w) req of
           Inl err \<Rightarrow> (Some err, w1)
         | Inr resp \<Rightarrow>
             if up_status resp \<noteq> 201 \<and> up_status resp \<noteq> 200 then
               (case json_message e (up_body resp) of
                  Some msg \<Rightarrow>
                    if Contains msg ''duplicate'' then (None, w1)
                    else (Some (Failure (''upload failed: '' @ msg)), w1)
                | None \<Rightarrow>
                    (Some (Failure (''upload failed: '' @ decimal (up_status resp) @ '' '' @ up_body resp)),
                     w1))
             else (None, w1))"

definition uploadZipEntry :: "env \<Rightarrow> zip_entry \<Rightarrow> world \<Rightarrow> error option \<times> world" where
  "uploadZipEntry e f w =
     (case entry_data f of
        Inl err \<Rightarrow> (Some err, w)
      | Inr content \<Rightarrow>
          (let modTime = (case entry_modified f of None \<Rightarrow> clock w | Some t \<Rightarrow> t)
           in uploadAsset e (Base (entry_name f)) content modTime w))"

text \<open>
  One iteration of the loop over \<open>photoFiles\<close> in \<open>processZipFile\<close>. The result
  \<open>None\<close> goes on to the next entry (the end of the body and both \<open>continue\<close>), an error
  leaves the function. \<open>uploadedSet\<close> is the \<open>map[string]bool\<close>, whose entries are only
  ever set to true.
\<close>

definition entry_step ::
  "env \<Rightarrow> string \<Rightarrow> zip_entry \<Rightarrow> JobState \<times> string set \<times> world
     \<Rightarrow> error option \<times> JobState \<times> string set \<times> world" where
  "entry_step e zipPath f st =
     (case st of (jobState, uploadedSet, w) \<Rightarrow>
        (case ctx_done w of (cancelled, w1) \<Rightarrow>
           if cancelled then (Some Canceled, jobState, uploadedSet, w1)
           else
             (let fileID = zipPath @ '':'' @ entry_name f in
              if fileID \<in> uploadedSet then (None, jobState, uploadedSet, w1)
              else
                (case UploadState jobState of
                   None \<Rightarrow> (Some NilDereference, jobState, uploadedSet, w1)
                 | Some u \<Rightarrow>
                     (let w2 = w1\<lparr>progress_log := progress_log w1 @
                                 [(''uploading'', UploadedPhotos u, TotalPhotos u, entry_name f)]\<rparr>
                      in case uploadZipEntry e f w2 of
                           (Some err, w3) \<Rightarrow> (None, jobState, uploadedSet, w3)
                         | (None, w3) \<Rightarrow>
                             (let u1 = u\<lparr>UploadedFiles := UploadedFiles u @ [fileID],
                                         UploadedPhotos := UploadedPhotos u + 1\<rparr>;
                                  job1 = jobState\<lparr>UploadState := Some u1\<rparr>;
                                  set1 = insert fileID uploadedSet
                              in if go_rem (sint (UploadedPhotos u1)) 100 = 0 then
                                   (case Save e job1 w3 of
                                      (r, job2, w4) \<Rightarrow> (None, job2, set1, w4))
                                 else (None, job1, set1, w3)))))))"

fun upload_entries ::
  "env \<Rightarrow> string \<Rightarrow> zip_entry list \<Rightarrow> JobState \<times> string set \<times> world
     \<Rightarrow> error option \<times> JobState \<times> string set \<times> world" where
  "upload_entries e zipPath [] st = (None, st)"
| "upload_entries e zipPath (f # rest) st =
     (case entry_step e zipPath f st of
        (Some err, st1) \<Rightarrow> (Some err, st1)
      | (None, st1) \<Rightarrow> upload_entries e zipPath rest st1)"

definition OpenReader :: "env \<Rightarrow> world \<Rightarrow> string \<Rightarrow> error + zip_entry list" where
  "OpenReader e w path =
     (case ReadFile e w path of Inl err \<Rightarrow> Inl err | Inr data \<Rightarrow> unzip e data)"

definition photoFiles :: "env \<Rightarrow> zip_entry list \<Rightarrow> zip_entry list" where
  "photoFiles e entries = filter (\<lambda>f. \<not> entry_is_dir f \<and> isMediaFile e (entry_name f)) entries"

definition processZipFile ::
  "env \<Rightarrow> string \<Rightarrow> JobState \<times> string set \<times> world
     \<Rightarrow> error option \<times> JobState \<times> string set \<times> world" where
  "processZipFile e zipPath st =
     (case st of (jobState, uploadedSet, w) \<Rightarrow>
        (case OpenReader e w zipPath of
           Inl err \<Rightarrow> (Some (Wrapped ''failed to open zip'' err), jobState, uploadedSet, w)
         | Inr entries \<Rightarrow>
             (case UploadState jobState of
                None \<Rightarrow> (Some NilDereference, jobState, uploadedSet, w)
              | Some u \<Rightarrow>
                  upload_entries e zipPath (photoFiles e entries)
                    (jobState\<lparr>UploadState :=
                       Some (u\<lparr>TotalPhotos := TotalPhotos u + of_nat (length (photoFiles e entries))\<rparr>)\<rparr>,
                     uploadedSet, w))))"

fun import_files ::
  "env \<Rightarrow> FileState list \<Rightarrow> JobState \<times> string set \<times> world
     \<Rightarrow> error option \<times> JobState \<times> string set \<times> world" where
  "import_files e [] st = (None, st)"
| "import_files e (file # rest) st =
     (if \<not> Downloaded file \<or> LocalPath file = [] then import_files e rest st
      else if HasSuffix (ToLower e (Name file)) ''.zip'' then
        (case processZipFile e (LocalPath file) st of
           (Some err, st1) \<Rightarrow> (Some err, st1)
         | (None, st1) \<Rightarrow> import_files e rest st1)
      else import_files e rest st)"

definition init_upload :: "JobState \<Rightarrow> UploadState" where
  "init_upload jobState =
     (case UploadState jobState of
        None \<Rightarrow> \<lparr>TotalPhotos = 0, UploadedPhotos = 0, UploadedFiles = []\<rparr>
      | Some u \<Rightarrow> u)"

definition ImportFiles :: "env \<Rightarrow> JobState \<Rightarrow> world \<Rightarrow> error option \<times> JobState \<times> world" where
  "ImportFiles e jobState w =
     (let job1 = jobState\<lparr>UploadState := Some (init_upload jobState)\<rparr>;
          uploadedSet = set (UploadedFiles (init_upload jobState))
      in case import_files e (Files job1) (job1, uploadedSet, w) of
           (r, job2, set2, w1) \<Rightarrow> (r, job2, w1))"

section \<open>Transfer coordinator\<close>

subsection \<open>Job creation (internal/state/state.go)\<close>

definition New :: "string \<Rightarrow> nat \<Rightarrow> JobState" where
  "New uuid now =
     \<lparr>ID = uuid, ServerURL = [], Status = ''idle'', Files = [], UploadState = None,
      LastError = [], CreatedAt = now, UpdatedAt = now\<rparr>"

definition AddFile :: "string \<Rightarrow> string \<Rightarrow> int64 \<Rightarrow> JobState \<Rightarrow> JobState" where
  "AddFile driveID name sz s =
     (if \<exists>f \<in> set (Files s). DriveID f = driveID then s
      else s\<lparr>Files := Files s @
             [\<lparr>DriveID = driveID, Name = name, Size = sz, Downloaded = False,
               LocalPath = [], BytesDownloaded = 0\<rparr>]\<rparr>)"

subsection \<open>Loading at start-up\<close>

text \<open>
  The command-line \<open>main\<close> binds the error of \<open>state.Load\<close> to the blank identifier:
  \<open>jobState, _ := state.Load()\<close>. The desktop application's \<open>startup\<close> keeps the
  loaded state only when \<open>err == nil && st != nil\<close>. Both then ask for a new selection
  when there is no job or the job has no files.
\<close>

definition main_load :: "env \<Rightarrow> world \<Rightarrow> JobState option" where
  "main_load e w = (case Load e w of Inl err \<Rightarrow> None | Inr jobState \<Rightarrow> jobState)"

definition startup_state :: "env \<Rightarrow> world \<Rightarrow> JobState option" where
  "startup_state e w =
     (case Load e w of
        Inl err \<Rightarrow> None
      | Inr st \<Rightarrow> (case st of None \<Rightarrow> None | Some s \<Rightarrow> Some s))"

definition main_lists_files :: "env \<Rightarrow> world \<Rightarrow> bool" where
  "main_lists_files e w =
     (case main_load e w of None \<Rightarrow> True | Some jobState \<Rightarrow> length (Files jobState) = 0)"

subsection \<open>The command-line \<open>runImport\<close>\<close>

definition cli_download_step ::
  "env \<Rightarrow> nat \<Rightarrow> JobState \<times> world \<Rightarrow> error option \<times> JobState \<times> world" where
  "cli_download_step e i st =
     (case st of (jobState, w) \<Rightarrow>
        (case ctx_done w of (cancelled, w1) \<Rightarrow>
           if cancelled then (Some Canceled, jobState, w1)
           else
             (let file = Files jobState ! i in
              if Downloaded file then (None, jobState, w1)
              else
                (case DownloadFile e file w1 of
                   (Some err, file1, w2) \<Rightarrow>
                     (case Save e (jobState\<lparr>Files := (Files jobState)[i := file1]\<rparr>) w2 of
                        (r, job1, w3) \<Rightarrow> (Some (Wrapped ''download failed'' err), job1, w3))
                 | (None, file1, w2) \<Rightarrow>
                     (case Save e
                             (jobState\<lparr>Files := (Files jobState)[i := file1\<lparr>Downloaded := True\<rparr>]\<rparr>)
                             w2 of
                        (r, job1, w3) \<Rightarrow> (None, job1, w3))))))"

fun cli_downloads ::
  "env \<Rightarrow> nat list \<Rightarrow> JobState \<times> world \<Rightarrow> error option \<times> JobState \<times> world" where
  "cli_downloads e [] st = (None, st)"
| "cli_downloads e (i # rest) st =
     (case cli_download_step e i st of
        (Some err, st1) \<Rightarrow> (Some err, st1)
      | (None, st1) \<Rightarrow> cli_downloads e rest st1)"

definition cli_runImport ::
  "env \<Rightarrow> JobState \<Rightarrow> world \<Rightarrow> error option \<times> JobState \<times> world" where
  "cli_runImport e jobState w =
     (case Save e (jobState\<lparr>Status := ''downloading''\<rparr>) w of
        (r0, job1, w1) \<Rightarrow>
          (case cli_downloads e [0..<length (Files job1)] (job1, w1) of
             (Some err, job2, w2) \<Rightarrow> (Some err, job2, w2)
           | (None, job2, w2) \<Rightarrow>
               (case Save e (job2\<lparr>Status := ''uploading''\<rparr>) w2 of
                  (r1, job3, w3) \<Rightarrow>
                    (case ImportFiles e job3 w3 of
                       (Some err, job4, w4) \<Rightarrow> (Some (Wrapped ''upload failed'' err), job4, w4)
                     | (None, job4, w4) \<Rightarrow>
                         (case Save e (job4\<lparr>Status := ''complete''\<rparr>) w4 of
                            (r2, job5, w5) \<Rightarrow> (None, job5, w5))))))"

subsection \<open>The desktop application's \<open>StartImport\<close> and \<open>runImport\<close>\<close>

text \<open>
  \<open>runImport\<close> of the application returns nothing; the error it emits as an event is
  the result here.
\<close>

definition StartImport ::
  "env \<Rightarrow> string list \<Rightarrow> JobState option \<Rightarrow> string \<Rightarrow> string \<Rightarrow> world \<Rightarrow> JobState \<times> world" where
  "StartImport e fileIDs state uuid serverURL w =
     (let s0 = (case state of None \<Rightarrow> New uuid (clock w) | Some s \<Rightarrow> s);
          s1 = s0\<lparr>ServerURL := serverURL, Status := ''downloading''\<rparr>;
          s2 = foldl (\<lambda>s ident. AddFile ident [] 0 s) s1 fileIDs
      in case Save e s2 w of (r, s3, w1) \<Rightarrow> (s3, w1))"

definition gui_download_step ::
  "env \<Rightarrow> nat \<Rightarrow> JobState \<times> world \<Rightarrow> error option \<times> JobState \<times> world" where
  "gui_download_step e i st =
     (case st of (jobState, w) \<Rightarrow>
        (let file = Files jobState ! i in
         if Downloaded file then (None, jobState, w)
         else
           (let w1 = w\<lparr>progress_log := progress_log w @
                       [(''downloading'', of_nat i, of_nat (length (Files jobState)), Name file)]\<rparr>
            in case DownloadFile e file w1 of
                 (Some err, file1, w2) \<Rightarrow>
                   (case Save e
                           (jobState\<lparr>Files := (Files jobState)[i := file1], LastError := Error err\<rparr>)
                           w2 of
                      (r, job1, w3) \<Rightarrow> (Some err, job1, w3))
               | (None, file1, w2) \<Rightarrow>
                   (case Save e
                           (jobState\<lparr>Files := (Files jobState)[i := file1\<lparr>Downloaded := True\<rparr>]\<rparr>)
                           w2 of
                      (r, job1, w3) \<Rightarrow> (None, job1, w3)))))"

fun gui_downloads ::
  "env \<Rightarrow> nat list \<Rightarrow> JobState \<times> world \<Rightarrow> error option \<times> JobState \<times> world" where
  "gui_downloads e [] st = (None, st)"
| "gui_downloads e (i # rest) st =
     (case gui_download_step e i st of
        (Some err, st1) \<Rightarrow> (Some err, st1)
      | (None, st1) \<Rightarrow> gui_downloads e rest st1)"

definition gui_runImport ::
  "env \<Rightarrow> JobState \<Rightarrow> world \<Rightarrow> error option \<times> JobState \<times> world" where
  "gui_runImport e jobState w =
     (case gui_downloads e [0..<length (Files jobState)] (jobState, w) of
        (Some err, job1, w1) \<Rightarrow> (Some err, job1, w1)
      | (None, job1, w1) \<Rightarrow>
          (case Save e (job1\<lparr>Status := ''uploading''\<rparr>) w1 of
             (r1, job2, w2) \<Rightarrow>
               (case ImportFiles e job2 w2 of
                  (Some err, job3, w3) \<Rightarrow>
                    (case Save e (job3\<lparr>LastError := Error err\<rparr>) w3 of
                       (r2, job4, w4) \<Rightarrow> (Some err, job4, w4))
                | (None, job3, w3) \<Rightarrow>
                    (case Save e (job3\<lparr>Status := ''complete''\<rparr>) w3 of
                       (r2, job4, w4) \<Rightarrow> (None, job4, w4)))))"

section \<open>Sequences of calls\<close>

text \<open>
  A call of \<open>DownloadFile\<close> on the \<open>i\<close>-th file of a job, through the pointer
  \<open>&jobState.Files[i]\<close> as both coordinators make it, or a call of \<open>ImportFiles\<close> on
  the job; an index outside the list of files is no call. \<open>trace\<close> lists the job and
  the world before the first call of a sequence, between the calls, and after the last.
\<close>

datatype call = Download nat | Import

definition apply_call :: "env \<Rightarrow> call \<Rightarrow> JobState \<times> world \<Rightarrow> JobState \<times> world" where
  "apply_call e c st =
     (case st of (jobState, w) \<Rightarrow>
        (case c of
           Download i \<Rightarrow>
             (if i < length (Files jobState) then
                (case DownloadFile e (Files jobState ! i) w of
                   (r, file1, w1) \<Rightarrow> (jobState\<lparr>Files := (Files jobState)[i := file1]\<rparr>, w1))
              else (jobState, w))
         | Import \<Rightarrow> (case ImportFiles e jobState w of (r, job1, w1) \<Rightarrow> (job1, w1))))"

fun trace :: "env \<Rightarrow> call list \<Rightarrow> JobState \<times> world \<Rightarrow> (JobState \<times> world) list" where
  "trace e [] st = [st]"
| "trace e (c # cs) st = st # trace e cs (apply_call e c st)"

section \<open>Crash points of \<open>Save\<close>\<close>

text \<open>
  The disk that a crash of the process leaves behind while \<open>Save\<close> runs. At the crash
  point \<open>None\<close> the process stops before \<open>os.WriteFile\<close> opens the record, and the
  disk is as it was. At the crash point \<open>Some k\<close> it stops after \<open>os.WriteFile\<close> has
  opened the record and \<open>k\<close> bytes have reached it: the disk is the one that the same
  call of \<open>Save\<close> leaves when its write stops after \<open>k\<close> bytes.
\<close>

definition Save_crash :: "env \<Rightarrow> JobState \<Rightarrow> world \<Rightarrow> nat option \<Rightarrow> world" where
  "Save_crash e s w c =
     (case c of
        None \<Rightarrow> w
      | Some k \<Rightarrow> snd (snd (Save e s (w\<lparr>write_faults := Some (0, k)\<rparr>))))"

text \<open>
  Atomicity of \<open>Save\<close> at a crash point: the record on disk is the complete previous
  record or the complete new one.
\<close>

definition save_atomic :: "env \<Rightarrow> JobState \<Rightarrow> world \<Rightarrow> nat option \<Rightarrow> bool" where
  "save_atomic e s w c =
     (case statePath e of
        Inl err \<Rightarrow> True
      | Inr path \<Rightarrow>
          files (Save_crash e s w c) path = files w path \<or>
          (case marshal e (s\<lparr>UpdatedAt := clock w\<rparr>) of
             Inl err \<Rightarrow> False
           | Inr data \<Rightarrow> files (Save_crash e s w c) path = Some data))"

section \<open>Predicates used in the statements\<close>

text \<open>
  \<open>is_archive\<close> is the test \<open>ImportFiles\<close> applies to each file before it calls
  \<open>processZipFile\<close>. \<open>step_rel\<close> is what one iteration of the entry loop may do to
  the job and the uploaded set: nothing, or append one key that was not there and count
  it. \<open>ledger_grows\<close> is the same for any number of iterations, with the keys added.
\<close>

definition is_archive :: "env \<Rightarrow> FileState \<Rightarrow> bool" where
  "is_archive e f = (Downloaded f \<and> LocalPath f \<noteq> [] \<and> HasSuffix (ToLower e (Name f)) ''.zip'')"

definition step_rel :: "string \<Rightarrow> JobState \<times> string set \<Rightarrow> JobState \<times> string set \<Rightarrow> bool" where
  "step_rel key a b =
     (case a of (job, us) \<Rightarrow> case b of (job', us') \<Rightarrow>
        Files job' = Files job \<and> Status job' = Status job \<and> LastError job' = LastError job \<and>
        (case UploadState job of
           None \<Rightarrow> UploadState job' = None \<and> us' = us
         | Some u \<Rightarrow>
             (UploadState job' = Some u \<and> us' = us) \<or>
             (key \<notin> us \<and> us' = insert key us \<and>
              UploadState job' = Some (u\<lparr>UploadedFiles := UploadedFiles u @ [key],
                                         UploadedPhotos := UploadedPhotos u + 1\<rparr>))))"

definition ledger_grows :: "JobState \<times> string set \<Rightarrow> JobState \<times> string set \<Rightarrow> string list \<Rightarrow> bool" where
  "ledger_grows a b added =
     (case a of (job, us) \<Rightarrow> case b of (job', us') \<Rightarrow>
        Files job' = Files job \<and> Status job' = Status job \<and> LastError job' = LastError job \<and>
        us' = us \<union> set added \<and> distinct added \<and> set added \<inter> us = {} \<and>
        (case UploadState job of
           None \<Rightarrow> UploadState job' = None \<and> added = []
         | Some u \<Rightarrow>
             (\<exists>u'. UploadState job' = Some u' \<and>
                   UploadedFiles u' = UploadedFiles u @ added \<and>
                   UploadedPhotos u' = UploadedPhotos u + of_nat (length added))))"

text \<open>
  \<open>local_path\<close> is the local path \<open>DownloadFile\<close> computes for a file, and
  \<open>local_len\<close> the length of the file at that path, 0 when there is none.
\<close>

definition local_path :: "env \<Rightarrow> FileState \<Rightarrow> string option" where
  "local_path e file =
     (case GetDownloadDir e of Inl err \<Rightarrow> None | Inr dir \<Rightarrow> Some (Join e [dir, Name file]))"

definition local_len :: "env \<Rightarrow> FileState \<Rightarrow> world \<Rightarrow> nat" where
  "local_len e fl w =
     (case local_path e fl of
        None \<Rightarrow> 0
      | Some p \<Rightarrow> (case files w p of None \<Rightarrow> 0 | Some content \<Rightarrow> length content))"

text \<open>
  \<open>count_inv\<close>: no file of the job has a count ahead of its local file.
  \<open>sizes_fit\<close>: every local file is shorter than \<open>2 ^ 63\<close> bytes, so that its
  length is the \<open>int64\<close> that \<open>info.Size()\<close> returns. \<open>apart\<close>: no file of the job
  has the path of the record as its local path.
\<close>

definition count_inv :: "env \<Rightarrow> JobState \<times> world \<Rightarrow> bool" where
  "count_inv e st =
     (case st of (job, w) \<Rightarrow>
        list_all (\<lambda>fl. sint (BytesDownloaded fl) \<le> int (local_len e fl w)) (Files job))"

definition sizes_fit :: "env \<Rightarrow> JobState \<times> world \<Rightarrow> bool" where
  "sizes_fit e st =
     (case st of (job, w) \<Rightarrow> list_all (\<lambda>fl. int (local_len e fl w) < 2 ^ 63) (Files job))"

definition apart :: "env \<Rightarrow> JobState \<Rightarrow> bool" where
  "apart e job =
     list_all (\<lambda>fl. case local_path e fl of None \<Rightarrow> True | Some p \<Rightarrow> statePath e \<noteq> Inr p)
       (Files job)"

text \<open>
  \<open>counters_le job job'\<close>: from \<open>job\<close> to \<open>job'\<close> the files keep their names and
  no \<open>BytesDownloaded\<close> decreases; \<open>UploadedFiles\<close> is only appended to, so that the
  number of distinct keys does not decrease; \<open>UploadedPhotos\<close> grows by the number of
  keys appended, and so does not decrease unless the \<open>int\<close> overflows. The ledger of a
  job that has none yet is the empty one that \<open>ImportFiles\<close> starts from.
\<close>

definition counters_le :: "JobState \<Rightarrow> JobState \<Rightarrow> bool" where
  "counters_le job job' =
     (list_all2 (\<lambda>a b. Name b = Name a \<and> BytesDownloaded a \<le>s BytesDownloaded b)
        (Files job) (Files job') \<and>
      prefix (UploadedFiles (init_upload job)) (UploadedFiles (init_upload job')) \<and>
      card (set (UploadedFiles (init_upload job))) \<le> card (set (UploadedFiles (init_upload job'))) \<and>
      UploadedPhotos (init_upload job') =
        UploadedPhotos (init_upload job) +
          of_nat (length (UploadedFiles (init_upload job')) - length (UploadedFiles (init_upload job))) \<and>
      (sint (UploadedPhotos (init_upload job)) +
         int (length (UploadedFiles (init_upload job')) - length (UploadedFiles (init_upload job)))
         < 2 ^ 63 \<longrightarrow>
       UploadedPhotos (init_upload job) \<le>s UploadedPhotos (init_upload job')))"

text \<open>
  The keys of the eligible entries of one archive and of all archives of a job, as
  \<open>ImportFiles\<close> computes them; and \<open>quiet\<close>, two worlds with the same files and the
  same logs.
\<close>

definition archive_keys :: "env \<Rightarrow> world \<Rightarrow> FileState \<Rightarrow> string list" where
  "archive_keys e w fl =
     (if is_archive e fl then
        (case OpenReader e w (LocalPath fl) of
           Inl err \<Rightarrow> []
         | Inr entries \<Rightarrow> map (\<lambda>f. LocalPath fl @ '':'' @ entry_name f) (photoFiles e entries))
      else [])"

definition eligible_keys :: "env \<Rightarrow> world \<Rightarrow> JobState \<Rightarrow> string list" where
  "eligible_keys e w job = concat (map (archive_keys e w) (Files job))"

definition quiet :: "world \<Rightarrow> world \<Rightarrow> bool" where
  "quiet w w' = (files w' = files w \<and> immich_log w' = immich_log w \<and>
                 drive_log w' = drive_log w \<and> progress_log w' = progress_log w)"

text \<open>
  The answer \<open>uploadAsset\<close> takes for a duplicate: a status other than 200 and 201
  whose body decodes to a message that contains \<open>duplicate\<close>.
\<close>

definition duplicate_answer :: "env \<Rightarrow> upload_response \<Rightarrow> bool" where
  "duplicate_answer e resp =
     (up_status resp \<noteq> 201 \<and> up_status resp \<noteq> 200 \<and>
      (case json_message e (up_body resp) of
         Some msg \<Rightarrow> Contains msg ''duplicate''
       | None \<Rightarrow> False))"

text \<open>The invariant of the ledger: the counter is the number of distinct keys.\<close>

definition ledger_inv :: "UploadState \<Rightarrow> bool" where
  "ledger_inv u = (UploadedPhotos u = of_nat (card (set (UploadedFiles u))))"

text \<open>
  \<open>disk_ok\<close>: the record can be written (its path resolves, its directory can be made,
  the file can be opened, every job can be encoded). \<open>persisted\<close>: the record on disk
  is the encoding of the job.
\<close>

definition disk_ok :: "env \<Rightarrow> bool" where
  "disk_ok e =
     ((case statePath e of
         Inl err \<Rightarrow> False
       | Inr path \<Rightarrow> mkdir_err e (Dir e path) = None \<and> open_err e path = None) \<and>
      (\<forall>s. case marshal e s of Inl err \<Rightarrow> False | Inr data \<Rightarrow> True))"

definition persisted :: "env \<Rightarrow> JobState \<Rightarrow> world \<Rightarrow> bool" where
  "persisted e s w =
     (case statePath e of
        Inl err \<Rightarrow> False
      | Inr path \<Rightarrow>
          (case marshal e s of
             Inl err \<Rightarrow> False
           | Inr data \<Rightarrow> files w path = Some data))"

text \<open>
  \<open>recorded\<close>: the record on disk is the encoding of some job with the given status
  and the given last error.
\<close>

definition recorded :: "env \<Rightarrow> world \<Rightarrow> string \<Rightarrow> string \<Rightarrow> bool" where
  "recorded e w status lastError =
     (\<exists>j. persisted e j w \<and> Status j = status \<and> LastError j = lastError)"

section \<open>Example inputs\<close>

text \<open>
  A Linux machine with home directory \<open>/home/u\<close>, a toy encoding of the record, a Drive
  that answers every request with the whole ten-byte file and status 200, and an
  ingestion service that accepts every upload. The names in the examples are ASCII, and
  on ASCII \<open>strings.ToLower\<close> lowers the letters \<open>A\<close> to \<open>Z\<close> and keeps every other
  byte, which is \<open>ascii_lower\<close>.
\<close>

definition ascii_lower :: "string \<Rightarrow> string" where
  "ascii_lower s =
     map (\<lambda>c. case map_of (zip ''ABCDEFGHIJKLMNOPQRSTUVWXYZ'' ''abcdefghijklmnopqrstuvwxyz'') c of
                 Some l \<Rightarrow> l
               | None \<Rightarrow> c) s"

definition example_env :: env where
  "example_env =
     \<lparr>goos = ''linux'', Getenv = (\<lambda>name. []), UserHomeDir = Inr ''/home/u'',
      Join = (\<lambda>elems. foldr (\<lambda>a b. if b = [] then a else a @ ''/'' @ b) elems []),
      Dir = (\<lambda>p. rev (tl (dropWhile (\<lambda>c. c \<noteq> CHR ''/'') (rev p)))),
      ToLower = ascii_lower,
      mkdir_err = (\<lambda>p. None), read_err = (\<lambda>p. None), open_err = (\<lambda>p. None),
      marshal = (\<lambda>s. Inr (''{'' @ Status s @ ''}'')),
      unmarshal = (\<lambda>b. if b = ''{idle}'' then Inr (New [] 0)
                        else Inl (Failure ''unexpected end of JSON input'')),
      drive = (\<lambda>req. Inr \<lparr>StatusCode = 200, StatusText = ''200 OK'',
                           Body = Chunk ''hello'' (Last ''world'' EOF)\<rparr>),
      unzip = (\<lambda>b. Inr []),
      immich = (\<lambda>seen req. Inr \<lparr>up_status = 201, up_body = []\<rparr>),
      json_message = (\<lambda>b. None)\<rparr>"

definition state_json :: string where
  "state_json = ''/home/u/.config/immich-importer/state.json''"

definition takeout_zip :: string where
  "takeout_zip = ''/home/u/.config/immich-importer/downloads/takeout.zip''"

definition empty_world :: world where
  "empty_world =
     \<lparr>files = (\<lambda>p. None), polls = None, write_faults = None, drive_log = [],
      immich_log = [], progress_log = [], clock = 7\<rparr>"

definition takeout_file :: FileState where
  "takeout_file =
     \<lparr>DriveID = ''drive-1'', Name = ''takeout.zip'', Size = 10, Downloaded = False,
      LocalPath = [], BytesDownloaded = 0\<rparr>"

definition example_job :: JobState where
  "example_job = (New ''job-1'' 3)\<lparr>Files := [takeout_file]\<rparr>"

text \<open>A disk that holds an earlier record, one whose record was cut short, one that
  holds the first five bytes of the archive, and one that holds all ten.\<close>

definition old_record_world :: world where
  "old_record_world =
     empty_world\<lparr>files := (\<lambda>p. if p = state_json then Some ''{downloading}'' else None)\<rparr>"

definition corrupt_world :: world where
  "corrupt_world =
     empty_world\<lparr>files := (\<lambda>p. if p = state_json then Some ''{downl'' else None)\<rparr>"

definition half_world :: world where
  "half_world =
     empty_world\<lparr>files := (\<lambda>p. if p = takeout_zip then Some ''hello'' else None)\<rparr>"

definition archive_world :: world where
  "archive_world =
     empty_world\<lparr>files := (\<lambda>p. if p = takeout_zip then Some ''helloworld'' else None)\<rparr>"

text \<open>A job whose sizes sum to zero and whose ledger counts no photos; a file whose
  size is not known; a file whose recorded count is ahead of the disk.\<close>

definition zero_job :: JobState where
  "zero_job =
     example_job\<lparr>Files := [takeout_file\<lparr>Size := 4\<rparr>, takeout_file\<lparr>Size := - 4\<rparr>],
                  UploadState := Some \<lparr>TotalPhotos = 0, UploadedPhotos = 3, UploadedFiles = []\<rparr>\<rparr>"

definition unsized_file :: FileState where
  "unsized_file = takeout_file\<lparr>Size := 0, Downloaded := True, BytesDownloaded := 10\<rparr>"

definition stale_file :: FileState where
  "stale_file = takeout_file\<lparr>BytesDownloaded := 9\<rparr>"

text \<open>
  An archive with twenty photos and five JSON sidecars and a small one with two photos
  and a sidecar, both downloaded to \<open>takeout_zip\<close>; the job that holds the archive,
  before any upload, as \<open>processZipFile\<close> has it when it enters the entry loop for the
  small archive, and after both photos of the small archive are uploaded.
\<close>

definition photo_entry :: "string \<Rightarrow> zip_entry" where
  "photo_entry name =
     \<lparr>entry_name = name, entry_is_dir = False, entry_data = Inr (''bytes of '' @ name),
      entry_modified = Some 5\<rparr>"

definition takeout_entries :: "zip_entry list" where
  "takeout_entries =
     map (\<lambda>d. photo_entry (''IMG_'' @ d @ ''.jpg''))
       [''01'', ''02'', ''03'', ''04'', ''05'', ''06'', ''07'', ''08'', ''09'', ''10'',
        ''11'', ''12'', ''13'', ''14'', ''15'', ''16'', ''17'', ''18'', ''19'', ''20''] @
     map (\<lambda>d. photo_entry (''IMG_'' @ d @ ''.jpg.json''))
       [''01'', ''02'', ''03'', ''04'', ''05'']"

definition archive_env :: env where
  "archive_env = example_env\<lparr>unzip := (\<lambda>b. Inr takeout_entries)\<rparr>"

definition small_entries :: "zip_entry list" where
  "small_entries = [photo_entry ''a.jpg'', photo_entry ''a.jpg.json'', photo_entry ''b.PNG'']"

definition small_env :: env where
  "small_env = example_env\<lparr>unzip := (\<lambda>b. Inr small_entries)\<rparr>"

definition downloaded_job :: JobState where
  "downloaded_job =
     example_job\<lparr>Files := [takeout_file\<lparr>Downloaded := True, LocalPath := takeout_zip,
                                         BytesDownloaded := 10\<rparr>]\<rparr>"

definition started_job :: JobState where
  "started_job =
     downloaded_job\<lparr>UploadState :=
       Some \<lparr>TotalPhotos = 2, UploadedPhotos = 0, UploadedFiles = []\<rparr>\<rparr>"

definition finished_job :: JobState where
  "finished_job =
     downloaded_job\<lparr>UploadState :=
       Some \<lparr>TotalPhotos = 2, UploadedPhotos = 2,
             UploadedFiles = [takeout_zip @ '':a.jpg'', takeout_zip @ '':b.PNG'']\<rparr>\<rparr>"

text \<open>A store that cannot be reached, an archive that cannot be read as a zip file, an
  ingestion service that has every asset already and one that rejects every upload; and
  the job and the world that \<open>StartImport\<close> leaves for one selected file.\<close>

definition offline_env :: env where
  "offline_env = example_env\<lparr>drive := (\<lambda>req. Inl (Failure ''connection refused''))\<rparr>"

definition broken_zip_env :: env where
  "broken_zip_env = example_env\<lparr>unzip := (\<lambda>b. Inl (Failure ''zip: not a valid zip file''))\<rparr>"

definition dedup_env :: env where
  "dedup_env =
     small_env\<lparr>immich := (\<lambda>seen req. Inr \<lparr>up_status = 409, up_body = ''{message: duplicate asset}''\<rparr>),
               json_message := (\<lambda>b. if b = ''{message: duplicate asset}'' then Some ''duplicate asset''
                                     else None)\<rparr>"

definition rejecting_env :: env where
  "rejecting_env =
     small_env\<lparr>immich := (\<lambda>seen req. Inr \<lparr>up_status = 500, up_body = ''Internal Server Error''\<rparr>)\<rparr>"

definition started_import :: "JobState \<times> world" where
  "started_import =
     StartImport offline_env [''drive-1''] None ''job-1'' ''http://immich.local'' empty_world"

section \<open>Verified properties\<close>

lemmas example_defs =
  example_env_def state_json_def takeout_zip_def empty_world_def takeout_file_def
  example_job_def New_def

subsection \<open>Progress accessors\<close>

lemma sum_files_fst: "fst (sum_files fs (t, d)) = t + sum_list (map Size fs)"
  by (induction fs arbitrary: t d) (auto simp: add.assoc)

lemma float64_eq_0: "float64 x = 0 \<longleftrightarrow> x = 0"
  by (simp add: float64_def signed_eq_0_iff)

text \<open>
  C10. The progress accessors are total and their divisions are guarded: for every job,
  \<open>GetDownloadProgress\<close> returns a value, which is 0 when the file list is empty or the
  summed sizes (the \<open>int64\<close> sum the code computes) are 0; \<open>GetUploadProgress\<close>
  returns a value, which is 0 when the ledger is absent or \<open>TotalPhotos\<close> is 0. The
  result \<open>None\<close>, a division by zero, is never reached.
\<close>

theorem progress_guarded:
  "GetDownloadProgress s \<noteq> None \<and> GetUploadProgress s \<noteq> None
   \<and> (Files s = [] \<longrightarrow> GetDownloadProgress s = Some 0)
   \<and> (sum_list (map Size (Files s)) = 0 \<longrightarrow> GetDownloadProgress s = Some 0)
   \<and> (UploadState s = None \<longrightarrow> GetUploadProgress s = Some 0)
   \<and> (\<forall>u. UploadState s = Some u \<and> TotalPhotos u = 0 \<longrightarrow> GetUploadProgress s = Some 0)"
proof -
  obtain t d where td: "sum_files (Files s) (0, 0) = (t, d)"
    by (cases "sum_files (Files s) (0, 0)")
  have t: "t = sum_list (map Size (Files s))"
    using sum_files_fst [of "Files s" 0 0] td by simp
  have dl: "GetDownloadProgress s \<noteq> None"
    by (simp add: GetDownloadProgress_def td fdiv_def float64_eq_0)
  have up: "GetUploadProgress s \<noteq> None"
    by (simp add: GetUploadProgress_def fdiv_def float64_eq_0 split: option.splits)
  have e: "Files s = [] \<longrightarrow> GetDownloadProgress s = Some 0"
    by (simp add: GetDownloadProgress_def)
  have z: "sum_list (map Size (Files s)) = 0 \<longrightarrow> GetDownloadProgress s = Some 0"
    using t by (simp add: GetDownloadProgress_def td)
  have n: "UploadState s = None \<longrightarrow> GetUploadProgress s = Some 0"
    by (simp add: GetUploadProgress_def)
  have tz: "\<forall>u. UploadState s = Some u \<and> TotalPhotos u = 0 \<longrightarrow> GetUploadProgress s = Some 0"
    by (simp add: GetUploadProgress_def)
  from dl up e z n tz show ?thesis by blast
qed

theorem progress_guarded_witness:
  "Files (New ''job-1'' 3) = [] \<and> UploadState (New ''job-1'' 3) = None \<and>
   GetDownloadProgress (New ''job-1'' 3) = Some 0 \<and>
   GetUploadProgress (New ''job-1'' 3) = Some 0 \<and>
   Files zero_job \<noteq> [] \<and> sum_list (map Size (Files zero_job)) = 0 \<and>
   GetDownloadProgress zero_job = Some 0 \<and> GetUploadProgress zero_job = Some 0"
  using progress_guarded [of "New ''job-1'' 3"] progress_guarded [of zero_job]
  by (simp add: zero_job_def example_defs)

subsection \<open>Checkpoint store\<close>

lemma Save_interrupted:
  assumes "statePath e = Inr path" and "mkdir_err e (Dir e path) = None"
    and "open_err e path = None" and "marshal e (s\<lparr>UpdatedAt := clock w\<rparr>) = Inr data"
  shows "Save e s (w\<lparr>write_faults := Some (0, k)\<rparr>) =
           (Some (Failure ''write failed''), s\<lparr>UpdatedAt := clock w\<rparr>,
            w\<lparr>files := (files w)(path := Some (take k data)), write_faults := None\<rparr>)"
  using assms by (simp add: Save_def WriteFile_def Write_def append_file_def Let_def)

lemma Save_files:
  assumes "statePath e = Inr path" and "Save e s w = (r, s', w')"
  shows "files w' = files w \<or>
         (\<exists>data k. marshal e (s\<lparr>UpdatedAt := clock w\<rparr>) = Inr data \<and>
            mkdir_err e (Dir e path) = None \<and> open_err e path = None \<and>
            files w' = (files w)(path := Some (take k data)))"
proof (cases "mkdir_err e (Dir e path) = None \<and> open_err e path = None \<and>
              (\<exists>data. marshal e (s\<lparr>UpdatedAt := clock w\<rparr>) = Inr data)")
  case False
  with assms have "w' = w"
    by (auto simp: Save_def WriteFile_def Let_def split: option.splits sum.splits)
  then show ?thesis by simp
next
  case True
  then obtain data where d: "marshal e (s\<lparr>UpdatedAt := clock w\<rparr>) = Inr data"
    and m: "mkdir_err e (Dir e path) = None" and opn: "open_err e path = None" by blast
  let ?w0 = "w\<lparr>files := (files w)(path := Some [])\<rparr>"
  from assms d m opn have wr: "Write path data ?w0 = (r, w')"
    by (simp add: Save_def WriteFile_def Let_def split: prod.splits)
  then have "files w' = (files w)(path := Some data) \<or>
             (\<exists>k. files w' = (files w)(path := Some (take k data)))"
    by (auto simp: Write_def append_file_def split: option.splits nat.splits prod.splits)
  moreover have "data = take (length data) data" by simp
  ultimately have "\<exists>k. files w' = (files w)(path := Some (take k data))" by metis
  with d m opn show ?thesis by blast
qed

text \<open>
  C2, as the code has it. \<open>Save\<close> rewrites the record in place with one
  \<open>os.WriteFile\<close>; there is no temporary file and no rename. When \<open>Save\<close> returns
  without error, the record on disk is the complete new record. A crash during \<open>Save\<close>
  leaves the record as it was or holding a prefix of the new record, and no other file
  changes. When the record can be written, every prefix, from the empty one to the whole
  record, is left by some crash, and \<open>Load\<close> after the crash is handed that prefix: it
  returns the error of the decoder when the decoder rejects the prefix, and the job the
  prefix decodes to otherwise.
\<close>

theorem Save_overwrites_in_place:
  assumes path: "statePath e = Inr path"
  shows "(\<forall>s1 w1. Save e s w = (None, s1, w1) \<longrightarrow>
            s1 = s\<lparr>UpdatedAt := clock w\<rparr> \<and>
            (\<exists>data. marshal e s1 = Inr data \<and> files w1 path = Some data)) \<and>
         (\<forall>c. (files (Save_crash e s w c) path = files w path \<or>
                (\<exists>data k. marshal e (s\<lparr>UpdatedAt := clock w\<rparr>) = Inr data \<and>
                   files (Save_crash e s w c) path = Some (take k data))) \<and>
               (\<forall>p. p \<noteq> path \<longrightarrow> files (Save_crash e s w c) p = files w p)) \<and>
         (\<forall>data k. mkdir_err e (Dir e path) = None \<and> open_err e path = None \<and>
             marshal e (s\<lparr>UpdatedAt := clock w\<rparr>) = Inr data \<longrightarrow>
             files (Save_crash e s w (Some k)) path = Some (take k data) \<and>
             (read_err e path = None \<longrightarrow>
                Load e (Save_crash e s w (Some k)) =
                  (case unmarshal e (take k data) of
                     Inl err \<Rightarrow> Inl err
                   | Inr state \<Rightarrow> Inr (Some state))))"
proof -
  have a: "\<forall>s1 w1. Save e s w = (None, s1, w1) \<longrightarrow>
            s1 = s\<lparr>UpdatedAt := clock w\<rparr> \<and>
            (\<exists>data. marshal e s1 = Inr data \<and> files w1 path = Some data)"
    by (auto simp: Save_def path Let_def WriteFile_def Write_def append_file_def
             split: option.splits sum.splits prod.splits nat.splits)
  have b: "\<forall>c. (files (Save_crash e s w c) path = files w path \<or>
                (\<exists>data k. marshal e (s\<lparr>UpdatedAt := clock w\<rparr>) = Inr data \<and>
                   files (Save_crash e s w c) path = Some (take k data))) \<and>
               (\<forall>p. p \<noteq> path \<longrightarrow> files (Save_crash e s w c) p = files w p)"
  proof
    fix c
    show "(files (Save_crash e s w c) path = files w path \<or>
                (\<exists>data k. marshal e (s\<lparr>UpdatedAt := clock w\<rparr>) = Inr data \<and>
                   files (Save_crash e s w c) path = Some (take k data))) \<and>
               (\<forall>p. p \<noteq> path \<longrightarrow> files (Save_crash e s w c) p = files w p)"
    proof (cases c)
      case None
      then show ?thesis by (simp add: Save_crash_def)
    next
      case (Some k)
      let ?wk = "w\<lparr>write_faults := Some (0, k)\<rparr>"
      obtain r s' w' where sv: "Save e s ?wk = (r, s', w')" by (metis prod_cases3)
      with Some have w': "Save_crash e s w c = w'" by (simp add: Save_crash_def)
      from Save_files [OF path sv]
      have "files w' = files w \<or>
         (\<exists>data k. marshal e (s\<lparr>UpdatedAt := clock w\<rparr>) = Inr data \<and>
            files w' = (files w)(path := Some (take k data)))"
        by auto
      then show ?thesis unfolding w' by auto
    qed
  qed
  have c: "\<forall>data k. mkdir_err e (Dir e path) = None \<and> open_err e path = None \<and>
             marshal e (s\<lparr>UpdatedAt := clock w\<rparr>) = Inr data \<longrightarrow>
             files (Save_crash e s w (Some k)) path = Some (take k data) \<and>
             (read_err e path = None \<longrightarrow>
                Load e (Save_crash e s w (Some k)) =
                  (case unmarshal e (take k data) of
                     Inl err \<Rightarrow> Inl err
                   | Inr state \<Rightarrow> Inr (Some state)))"
  proof (intro allI, rule impI)
    fix data k
    assume h: "mkdir_err e (Dir e path) = None \<and> open_err e path = None \<and>
             marshal e (s\<lparr>UpdatedAt := clock w\<rparr>) = Inr data"
    then have "Save e s (w\<lparr>write_faults := Some (0, k)\<rparr>) =
           (Some (Failure ''write failed''), s\<lparr>UpdatedAt := clock w\<rparr>,
            w\<lparr>files := (files w)(path := Some (take k data)), write_faults := None\<rparr>)"
      using Save_interrupted [OF path] by blast
    then have f: "files (Save_crash e s w (Some k)) path = Some (take k data)"
      by (simp add: Save_crash_def)
    then have "read_err e path = None \<longrightarrow>
                Load e (Save_crash e s w (Some k)) =
                  (case unmarshal e (take k data) of
                     Inl err \<Rightarrow> Inl err
                   | Inr state \<Rightarrow> Inr (Some state))"
      by (simp add: Load_def path ReadFile_def)
    with f show "files (Save_crash e s w (Some k)) path = Some (take k data) \<and>
             (read_err e path = None \<longrightarrow>
                Load e (Save_crash e s w (Some k)) =
                  (case unmarshal e (take k data) of
                     Inl err \<Rightarrow> Inl err
                   | Inr state \<Rightarrow> Inr (Some state)))" by simp
  qed
  from a b c show ?thesis by (intro conjI)
qed

theorem Save_overwrites_in_place_witness:
  "statePath example_env = Inr state_json \<and>
   mkdir_err example_env (Dir example_env state_json) = None \<and>
   open_err example_env state_json = None \<and> read_err example_env state_json = None \<and>
   marshal example_env (example_job\<lparr>UpdatedAt := clock old_record_world\<rparr>) = Inr ''{idle}'' \<and>
   (case Save example_env example_job old_record_world of
      (r, s1, w1) \<Rightarrow> r = None \<and> UpdatedAt s1 = 7 \<and> files w1 state_json = Some ''{idle}'') \<and>
   files (Save_crash example_env example_job old_record_world None) state_json
     = Some ''{downloading}'' \<and>
   files (Save_crash example_env example_job old_record_world (Some 0)) state_json = Some [] \<and>
   files (Save_crash example_env example_job old_record_world (Some 2)) state_json = Some ''{i'' \<and>
   files (Save_crash example_env example_job old_record_world (Some 2)) takeout_zip = None \<and>
   Load example_env (Save_crash example_env example_job old_record_world (Some 2))
     = Inl (Failure ''unexpected end of JSON input'') \<and>
   files (Save_crash example_env example_job old_record_world (Some 6)) state_json
     = Some ''{idle}'' \<and>
   Load example_env (Save_crash example_env example_job old_record_world (Some 6))
     = Inr (Some (New [] 0))"
proof -
  have path: "statePath example_env = Inr state_json"
    by (simp add: statePath_def appDataDir_def example_defs)
  have h: "mkdir_err example_env (Dir example_env state_json) = None \<and>
      open_err example_env state_json = None \<and>
      marshal example_env (example_job\<lparr>UpdatedAt := clock old_record_world\<rparr>) = Inr ''{idle}''"
    by (simp add: example_defs old_record_world_def)
  have rd: "read_err example_env state_json = None" by (simp add: example_defs)
  note t = Save_overwrites_in_place [of example_env state_json example_job old_record_world,
      OF path]
  have sv: "case Save example_env example_job old_record_world of
      (r, s1, w1) \<Rightarrow> r = None \<and> UpdatedAt s1 = 7 \<and> files w1 state_json = Some ''{idle}''"
    using t [THEN conjunct1]
    by (simp add: Save_def WriteFile_def Write_def append_file_def statePath_def appDataDir_def
          example_defs old_record_world_def)
  have c0: "files (Save_crash example_env example_job old_record_world None) state_json
      = Some ''{downloading}''"
    by (simp add: Save_crash_def old_record_world_def example_defs)
  from t [THEN conjunct2, THEN conjunct2, rule_format, OF h, of 0]
  have k0: "files (Save_crash example_env example_job old_record_world (Some 0)) state_json = Some []"
    by simp
  note k2 = t [THEN conjunct2, THEN conjunct2, rule_format, OF h, of 2]
  from k2 have f2: "files (Save_crash example_env example_job old_record_world (Some 2)) state_json = Some ''{i''"
    by simp
  from k2 rd have l2: "Load example_env (Save_crash example_env example_job old_record_world (Some 2))
      = Inl (Failure ''unexpected end of JSON input'')"
    by (simp add: example_defs)
  have ne: "takeout_zip \<noteq> state_json" by (simp add: example_defs)
  from t [THEN conjunct2, THEN conjunct1, rule_format, of "Some 2", THEN conjunct2, rule_format, OF ne]
  have o2: "files (Save_crash example_env example_job old_record_world (Some 2)) takeout_zip = None"
    by (simp add: old_record_world_def example_defs)
  note k6 = t [THEN conjunct2, THEN conjunct2, rule_format, OF h, of 6]
  from k6 have f6: "files (Save_crash example_env example_job old_record_world (Some 6)) state_json = Some ''{idle}''"
    by simp
  from k6 rd have l6: "Load example_env (Save_crash example_env example_job old_record_world (Some 6))
      = Inr (Some (New [] 0))"
    by (simp add: example_defs)
  from path h rd sv c0 k0 f2 o2 l2 f6 l6 show ?thesis by (intro conjI) simp_all
qed

text \<open>
  C2, as stated, fails: with the record \<open>{downloading}\<close> on disk, a crash after the
  first two bytes of the new record \<open>{idle}\<close> leaves \<open>{i\<close>, which is neither record,
  and \<open>Load\<close> then fails on it.
\<close>

theorem Save_not_atomic:
  "\<not> save_atomic example_env example_job old_record_world (Some 2) \<and>
   files old_record_world state_json = Some ''{downloading}'' \<and>
   marshal example_env (example_job\<lparr>UpdatedAt := clock old_record_world\<rparr>) = Inr ''{idle}'' \<and>
   files (Save_crash example_env example_job old_record_world (Some 2)) state_json = Some ''{i'' \<and>
   Load example_env (Save_crash example_env example_job old_record_world (Some 2))
     = Inl (Failure ''unexpected end of JSON input'')"
  by (simp add: save_atomic_def Save_crash_def Save_def WriteFile_def Write_def append_file_def
        statePath_def appDataDir_def example_defs old_record_world_def Load_def ReadFile_def
        IsNotExist_def Let_def)

text \<open>
  C8, as the code has it. \<open>Load\<close> on a missing record returns absent and no error;
  \<open>Load\<close> on a record that is present and does not parse returns the parse error and
  no job. The callers drop that error: \<open>main\<close> and \<open>startup\<close> go on with no job, and
  \<open>main\<close> asks for a new selection, as for a missing record.
\<close>

theorem Load_absent_or_error:
  assumes path: "statePath e = Inr path" and rd: "read_err e path = None"
  shows "(files w path = None \<longrightarrow> Load e w = Inr None) \<and>
         (\<forall>data err. files w path = Some data \<and> unmarshal e data = Inl err \<longrightarrow>
            Load e w = Inl err \<and> main_load e w = None \<and> startup_state e w = None \<and>
            main_lists_files e w)"
  by (auto simp: Load_def path rd ReadFile_def IsNotExist_def main_load_def startup_state_def
        main_lists_files_def)

theorem Load_absent_or_error_witness:
  "statePath example_env = Inr state_json \<and> read_err example_env state_json = None \<and>
   files empty_world state_json = None \<and> Load example_env empty_world = Inr None \<and>
   files corrupt_world state_json = Some ''{downl'' \<and>
   unmarshal example_env ''{downl'' = Inl (Failure ''unexpected end of JSON input'') \<and>
   Load example_env corrupt_world = Inl (Failure ''unexpected end of JSON input'') \<and>
   startup_state example_env corrupt_world = None"
  using Load_absent_or_error [of example_env state_json empty_world]
        Load_absent_or_error [of example_env state_json corrupt_world]
  by (simp add: statePath_def appDataDir_def example_defs corrupt_world_def)

text \<open>
  C8, as stated, fails at the caller: on the record \<open>{downl\<close>, \<open>Load\<close> returns an
  error, and \<open>main\<close> is left with no job, exactly as on an empty disk, and goes on to
  list the files for a new job.
\<close>

theorem corrupt_record_taken_as_no_job:
  "Load example_env corrupt_world = Inl (Failure ''unexpected end of JSON input'') \<and>
   main_load example_env corrupt_world = None \<and>
   main_load example_env empty_world = None \<and>
   main_lists_files example_env corrupt_world"
  by (simp add: main_load_def main_lists_files_def Load_def ReadFile_def IsNotExist_def
        statePath_def appDataDir_def example_defs corrupt_world_def)

subsection \<open>Range downloader\<close>

text \<open>
  C1 does not hold of the code. \<open>DownloadFile\<close> accepts status 200 whatever the
  offset: with five bytes on disk it asks for the range from byte 5, the store answers
  200 with the whole ten-byte file, and the ten bytes are appended to the five. The call
  returns no error and marks the file downloaded, with fifteen bytes for a size of ten.
\<close>

theorem resumed_download_appends_full_response:
  "(case DownloadFile example_env takeout_file half_world of
      (r, file, w) \<Rightarrow>
        r = None \<and> Downloaded file \<and> BytesDownloaded file = 15 \<and> Size file = 10 \<and>
        drive_log w = [\<lparr>req_file = ''drive-1'', req_range = Some 5\<rparr>] \<and>
        files w takeout_zip = Some ''hellohelloworld'')"
  by (simp add: DownloadFile_def GetDownloadDir_def appDataDir_def example_defs half_world_def
        fetch_def DownloadFileRange_def OpenFile_def write_counted_def Write_def append_file_def
        ctx_done_def word_sless_alt word_sle_eq Let_def)

subsection \<open>The ledger only grows\<close>

lemma Save_fields:
  assumes "Save e s w = (r, s', w')"
  shows "Files s' = Files s \<and> UploadState s' = UploadState s \<and> Status s' = Status s \<and>
         LastError s' = LastError s \<and> immich_log w' = immich_log w \<and>
         drive_log w' = drive_log w \<and> polls w' = polls w \<and> clock w' = clock w \<and>
         progress_log w' = progress_log w"
  using assms
  by (auto simp: Save_def Let_def WriteFile_def Write_def append_file_def
           split: sum.splits option.splits prod.splits nat.splits)

lemma ctx_done_fields:
  assumes "ctx_done w = (c, w1)"
  shows "files w1 = files w \<and> immich_log w1 = immich_log w \<and> drive_log w1 = drive_log w \<and>
         clock w1 = clock w \<and> write_faults w1 = write_faults w \<and> progress_log w1 = progress_log w"
  using assms by (auto simp: ctx_done_def split: option.splits nat.splits)

lemma entry_step_rel:
  assumes "entry_step e zipPath f (job, us, w) = (r, job', us', w')"
  shows "step_rel (zipPath @ '':'' @ entry_name f) (job, us) (job', us')"
  using assms
  apply (simp add: entry_step_def Let_def split: prod.splits if_splits option.splits)
  apply (auto simp: step_rel_def dest!: Save_fields split: option.splits)
  done

lemma ledger_grows_refl: "ledger_grows (job, us) (job, us) []"
  by (simp add: ledger_grows_def split: option.splits)

lemma ledger_grows_step:
  "step_rel key (job, us) (job', us') \<Longrightarrow> \<exists>added. ledger_grows (job, us) (job', us') added"
  apply (cases "UploadState job")
   apply (rule exI [of _ "[]"])
   apply (simp add: step_rel_def ledger_grows_def)
  apply (simp add: step_rel_def)
  apply (elim conjE disjE)
   apply (rule exI [of _ "[]"])
   apply (simp add: ledger_grows_def)
  apply (rule exI [of _ "[key]"])
  apply (simp add: ledger_grows_def)
  done

lemma ledger_grows_trans:
  assumes "ledger_grows (job, us) (job1, us1) a1" and "ledger_grows (job1, us1) (job2, us2) a2"
  shows "ledger_grows (job, us) (job2, us2) (a1 @ a2)"
  using assms
  by (cases "UploadState job") (auto simp: ledger_grows_def add.assoc)

lemma upload_entries_grows:
  "upload_entries e zipPath fs (job, us, w) = (r, job', us', w') \<Longrightarrow>
   \<exists>added. ledger_grows (job, us) (job', us') added"
proof (induction fs arbitrary: job us w)
  case Nil
  then show ?case using ledger_grows_refl by auto
next
  case (Cons f fs)
  obtain r1 job1 us1 w1 where st: "entry_step e zipPath f (job, us, w) = (r1, job1, us1, w1)"
    by (metis prod_cases4)
  from entry_step_rel [OF st] obtain a1 where a1: "ledger_grows (job, us) (job1, us1) a1"
    using ledger_grows_step by blast
  show ?case
  proof (cases r1)
    case None
    with Cons.prems st have "upload_entries e zipPath fs (job1, us1, w1) = (r, job', us', w')"
      by simp
    from Cons.IH [OF this] obtain a2 where "ledger_grows (job1, us1) (job', us') a2" by blast
    with a1 show ?thesis using ledger_grows_trans by blast
  next
    case (Some err)
    with Cons.prems st have "job' = job1" "us' = us1" by simp_all
    with a1 show ?thesis by blast
  qed
qed

lemma ledger_grows_total:
  assumes "UploadState job = Some u"
    and "ledger_grows (job\<lparr>UploadState := Some (u\<lparr>TotalPhotos := t\<rparr>)\<rparr>, us) b added"
  shows "ledger_grows (job, us) b added"
  using assms by (cases b) (auto simp: ledger_grows_def)

lemma processZipFile_grows:
  assumes "processZipFile e zipPath (job, us, w) = (r, job', us', w')"
  shows "\<exists>added. ledger_grows (job, us) (job', us') added"
proof (cases "OpenReader e w zipPath")
  case (Inl err)
  with assms show ?thesis using ledger_grows_refl by (auto simp: processZipFile_def)
next
  case (Inr entries)
  show ?thesis
  proof (cases "UploadState job")
    case None
    with Inr assms show ?thesis using ledger_grows_refl by (auto simp: processZipFile_def)
  next
    case (Some u)
    with Inr assms obtain added where
      "ledger_grows (job\<lparr>UploadState := Some (u\<lparr>TotalPhotos := TotalPhotos u + of_nat (length (photoFiles e entries))\<rparr>)\<rparr>, us) (job', us') added"
      using upload_entries_grows by (fastforce simp: processZipFile_def)
    with Some show ?thesis using ledger_grows_total by blast
  qed
qed

lemma import_files_Cons:
  "import_files e (f # rest) st =
     (if is_archive e f then
        (case processZipFile e (LocalPath f) st of
           (Some err, st1) \<Rightarrow> (Some err, st1)
         | (None, st1) \<Rightarrow> import_files e rest st1)
      else import_files e rest st)"
  by (simp add: is_archive_def)

lemma import_files_grows:
  "import_files e fs (job, us, w) = (r, job', us', w') \<Longrightarrow>
   \<exists>added. ledger_grows (job, us) (job', us') added"
proof (induction fs arbitrary: job us w)
  case Nil
  then show ?case using ledger_grows_refl by auto
next
  case (Cons fl fs)
  show ?case
  proof (cases "is_archive e fl")
    case False
    with Cons.prems have "import_files e fs (job, us, w) = (r, job', us', w')"
      by (simp add: import_files_Cons del: import_files.simps)
    from Cons.IH [OF this] show ?thesis .
  next
    case True
    obtain r1 job1 us1 w1 where st: "processZipFile e (LocalPath fl) (job, us, w) = (r1, job1, us1, w1)"
      by (metis prod_cases4)
    from processZipFile_grows [OF st] obtain a1 where a1: "ledger_grows (job, us) (job1, us1) a1"
      by blast
    show ?thesis
    proof (cases r1)
      case None
      with Cons.prems st True have "import_files e fs (job1, us1, w1) = (r, job', us', w')"
        by (simp add: import_files_Cons del: import_files.simps)
      from Cons.IH [OF this] obtain a2 where "ledger_grows (job1, us1) (job', us') a2" by blast
      with a1 show ?thesis using ledger_grows_trans by blast
    next
      case (Some err)
      with Cons.prems st True have "job' = job1" "us' = us1"
        by (simp_all add: import_files_Cons del: import_files.simps)
      with a1 show ?thesis by blast
    qed
  qed
qed

lemma ImportFiles_ledger:
  assumes "ImportFiles e job w = (r, job', w')"
  shows "Files job' = Files job \<and> Status job' = Status job \<and> LastError job' = LastError job \<and>
         (\<exists>u' added. UploadState job' = Some u' \<and>
            UploadedFiles u' = UploadedFiles (init_upload job) @ added \<and>
            UploadedPhotos u' = UploadedPhotos (init_upload job) + of_nat (length added) \<and>
            distinct added \<and> set added \<inter> set (UploadedFiles (init_upload job)) = {})"
proof -
  let ?job1 = "job\<lparr>UploadState := Some (init_upload job)\<rparr>"
  let ?us = "set (UploadedFiles (init_upload job))"
  obtain us' where "import_files e (Files job) (?job1, ?us, w) = (r, job', us', w')"
    using assms by (auto simp: ImportFiles_def Let_def split: prod.splits)
  from import_files_grows [OF this] obtain added where
    "ledger_grows (?job1, ?us) (job', us') added" by blast
  then show ?thesis by (auto simp: ledger_grows_def)
qed

subsection \<open>Signed readings of sums that do not overflow\<close>

lemma sint_add_of_nat:
  fixes x :: "64 word"
  assumes "- (2 ^ 63) \<le> sint x + int k" and "sint x + int k < 2 ^ 63"
  shows "sint (x + of_nat k) = sint x + int k"
proof -
  have "x + of_nat k = word_of_int (sint x + int k)" by simp
  then have "sint (x + of_nat k) = signed_take_bit 63 (sint x + int k)"
    by (simp only: sint_sbintrunc') simp
  then show ?thesis using assms by (simp add: signed_take_bit_int_eq_self)
qed

lemma sint_of_nat_small:
  assumes "k < 2 ^ 63"
  shows "sint (of_nat k :: 64 word) = int k"
  using sint_add_of_nat [of 0 k] assms by simp

subsection \<open>Archives whose entries are all uploaded\<close>

lemma quiet_refl: "quiet w w"
  by (simp add: quiet_def)

lemma quiet_trans: "quiet w w1 \<Longrightarrow> quiet w1 w2 \<Longrightarrow> quiet w w2"
  by (simp add: quiet_def)

lemma quiet_ctx_done: "ctx_done w = (c, w1) \<Longrightarrow> quiet w w1"
  using ctx_done_fields by (simp add: quiet_def)

lemma OpenReader_quiet:
  assumes "quiet w w'"
  shows "OpenReader e w' p = OpenReader e w p"
proof -
  from assms have "files w' = files w" by (simp add: quiet_def)
  then show ?thesis
    unfolding OpenReader_def ReadFile_def by (cases "read_err e p") simp_all
qed

lemma entry_step_known:
  assumes "zipPath @ '':'' @ entry_name f \<in> us"
    and "entry_step e zipPath f (job, us, w) = (r, job', us', w')"
  shows "job' = job \<and> us' = us \<and> quiet w w'"
proof -
  obtain c w1 where c: "ctx_done w = (c, w1)" by (cases "ctx_done w")
  with assms have "job' = job \<and> us' = us \<and> w' = w1"
    by (cases c) (simp_all add: entry_step_def Let_def)
  with quiet_ctx_done [OF c] show ?thesis by simp
qed

lemma upload_entries_known:
  "\<forall>f \<in> set fs. zipPath @ '':'' @ entry_name f \<in> us \<Longrightarrow>
   upload_entries e zipPath fs (job, us, w) = (r, job', us', w') \<Longrightarrow>
   job' = job \<and> us' = us \<and> quiet w w'"
proof (induction fs arbitrary: w)
  case Nil
  then show ?case by (simp add: quiet_refl)
next
  case (Cons f fs)
  obtain r1 job1 us1 w1 where st: "entry_step e zipPath f (job, us, w) = (r1, job1, us1, w1)"
    by (metis prod_cases4)
  from Cons.prems(1) have "zipPath @ '':'' @ entry_name f \<in> us" by simp
  from entry_step_known [OF this st] have s1: "job1 = job" "us1 = us" "quiet w w1" by simp_all
  show ?case
  proof (cases r1)
    case None
    with Cons.prems st s1 have "upload_entries e zipPath fs (job, us, w1) = (r, job', us', w')"
      by simp
    with Cons.IH [of w1] Cons.prems(1) have "job' = job \<and> us' = us \<and> quiet w1 w'" by simp
    with s1 show ?thesis using quiet_trans by blast
  next
    case (Some err)
    with Cons.prems st s1 show ?thesis by simp
  qed
qed

lemma processZipFile_known:
  assumes "archive_keys e w fl \<noteq> [] \<longrightarrow> set (archive_keys e w fl) \<subseteq> us" and "is_archive e fl"
    and "processZipFile e (LocalPath fl) (job, us, w) = (r, job', us', w')"
  shows "us' = us \<and> quiet w w'"
proof (cases "OpenReader e w (LocalPath fl)")
  case (Inl err)
  with assms(3) show ?thesis by (simp add: processZipFile_def quiet_refl)
next
  case (Inr entries)
  show ?thesis
  proof (cases "UploadState job")
    case None
    with Inr assms(3) show ?thesis by (simp add: processZipFile_def quiet_refl)
  next
    case (Some u)
    from assms(1,2) Inr have "\<forall>f \<in> set (photoFiles e entries). LocalPath fl @ '':'' @ entry_name f \<in> us"
      by (auto simp: archive_keys_def)
    moreover from Some Inr assms(3) have
      "upload_entries e (LocalPath fl) (photoFiles e entries)
         (job\<lparr>UploadState := Some (u\<lparr>TotalPhotos := TotalPhotos u + of_nat (length (photoFiles e entries))\<rparr>)\<rparr>, us, w)
       = (r, job', us', w')"
      by (simp add: processZipFile_def)
    ultimately show ?thesis using upload_entries_known by blast
  qed
qed

lemma archive_keys_quiet: "quiet w w' \<Longrightarrow> archive_keys e w' fl = archive_keys e w fl"
  by (simp add: archive_keys_def OpenReader_quiet)

lemma import_files_known:
  "\<forall>fl \<in> set fs. set (archive_keys e w fl) \<subseteq> us \<Longrightarrow>
   import_files e fs (job, us, w) = (r, job', us', w') \<Longrightarrow>
   us' = us \<and> quiet w w'"
proof (induction fs arbitrary: job w)
  case Nil
  then show ?case by (simp add: quiet_refl)
next
  case (Cons fl fs)
  from Cons.prems(1) have rest: "\<forall>fl \<in> set fs. set (archive_keys e w fl) \<subseteq> us" by simp
  show ?case
  proof (cases "is_archive e fl")
    case False
    with Cons.prems have "import_files e fs (job, us, w) = (r, job', us', w')"
      by (simp add: import_files_Cons del: import_files.simps)
    from Cons.IH [OF rest this] show ?thesis .
  next
    case True
    obtain r1 job1 us1 w1 where st: "processZipFile e (LocalPath fl) (job, us, w) = (r1, job1, us1, w1)"
      by (metis prod_cases4)
    from Cons.prems(1) have "archive_keys e w fl \<noteq> [] \<longrightarrow> set (archive_keys e w fl) \<subseteq> us" by simp
    from processZipFile_known [OF this True st] have s1: "us1 = us" "quiet w w1" by simp_all
    show ?thesis
    proof (cases r1)
      case None
      with Cons.prems st True s1 have run: "import_files e fs (job1, us, w1) = (r, job', us', w')"
        by (simp add: import_files_Cons del: import_files.simps)
      from rest s1 have "\<forall>fl \<in> set fs. set (archive_keys e w1 fl) \<subseteq> us"
        by (simp add: archive_keys_quiet)
      from Cons.IH [OF this run] s1 show ?thesis using quiet_trans by blast
    next
      case (Some err)
      with Cons.prems st True s1 show ?thesis
        by (simp add: import_files_Cons del: import_files.simps)
    qed
  qed
qed

lemma ImportFiles_known:
  assumes "set (eligible_keys e w job) \<subseteq> set (UploadedFiles (init_upload job))"
    and "ImportFiles e job w = (r, job', w')"
  shows "quiet w w' \<and>
         (\<exists>u'. UploadState job' = Some u' \<and>
               UploadedFiles u' = UploadedFiles (init_upload job) \<and>
               UploadedPhotos u' = UploadedPhotos (init_upload job))"
proof -
  let ?job1 = "job\<lparr>UploadState := Some (init_upload job)\<rparr>"
  let ?us = "set (UploadedFiles (init_upload job))"
  obtain us' where run: "import_files e (Files job) (?job1, ?us, w) = (r, job', us', w')"
    using assms(2) by (auto simp: ImportFiles_def Let_def split: prod.splits)
  have "\<forall>fl \<in> set (Files job). set (archive_keys e w fl) \<subseteq> ?us"
  proof
    fix fl
    assume "fl \<in> set (Files job)"
    then have "set (archive_keys e w fl) \<subseteq> set (eligible_keys e w job)"
      by (auto simp: eligible_keys_def)
    from this assms(1) show "set (archive_keys e w fl) \<subseteq> ?us" by (rule subset_trans)
  qed
  from import_files_known [OF this run] have k: "us' = ?us" "quiet w w'" by simp_all
  from import_files_grows [OF run] obtain added where
    g: "ledger_grows (?job1, ?us) (job', us') added" by blast
  then have d: "set added \<inter> ?us = {}" and u: "us' = ?us \<union> set added"
    by (simp_all add: ledger_grows_def)
  have "set added \<subseteq> ?us \<union> set added" by (rule Un_upper2)
  also from u k(1) have "?us \<union> set added = ?us" by simp
  finally have "set added \<inter> ?us = set added" by (rule Int_absorb2)
  with d have "set added = {}" by simp
  then have "added = []" by simp
  with g have "\<exists>u'. UploadState job' = Some u' \<and>
               UploadedFiles u' = UploadedFiles (init_upload job) \<and>
               UploadedPhotos u' = UploadedPhotos (init_upload job)"
    by (simp add: ledger_grows_def)
  with k(2) show ?thesis by simp
qed

lemma DownloadFile_complete:
  assumes p: "local_path e fl = Some p" and c: "files w p = Some content"
    and sz: "0 <s Size fl" "Size fl \<le>s of_nat (length content)"
  shows "DownloadFile e fl w =
           (None, fl\<lparr>LocalPath := p, BytesDownloaded := of_nat (length content), Downloaded := True\<rparr>, w)"
proof -
  from p obtain dir where dir: "GetDownloadDir e = Inr dir" "p = Join e [dir, Name fl]"
    by (auto simp: local_path_def split: sum.splits)
  with c sz show ?thesis by (simp add: DownloadFile_def Let_def)
qed

text \<open>The requests a download sends.\<close>

lemma write_counted_drive_log:
  assumes "write_counted path b fl w = (r, fl', w')"
  shows "drive_log w' = drive_log w"
  using assms
  by (auto simp: write_counted_def Write_def append_file_def
           split: if_splits prod.splits option.splits nat.splits)

lemma copy_body_drive_log:
  "copy_body path bd fl w = (r, fl', w') \<Longrightarrow> drive_log w' = drive_log w"
proof (induction bd arbitrary: fl w)
  case (Chunk b rest)
  obtain c w1 where c: "ctx_done w = (c, w1)" by (cases "ctx_done w")
  from ctx_done_fields [OF c] have l1: "drive_log w1 = drive_log w" by simp
  show ?case
  proof (cases c)
    case True
    with Chunk.prems c l1 show ?thesis by simp
  next
    case False
    obtain r1 file1 w2 where wc: "write_counted path b fl w1 = (r1, file1, w2)"
      by (metis prod_cases3)
    from write_counted_drive_log [OF wc] l1 have l2: "drive_log w2 = drive_log w" by simp
    show ?thesis
    proof (cases r1)
      case None
      with Chunk.prems c False wc have "copy_body path rest file1 w2 = (r, fl', w')" by simp
      from Chunk.IH [OF this] l2 show ?thesis by simp
    next
      case (Some err)
      with Chunk.prems c False wc l2 show ?thesis by simp
    qed
  qed
next
  case (Last b fin)
  obtain c w1 where c: "ctx_done w = (c, w1)" by (cases "ctx_done w")
  from ctx_done_fields [OF c] have l1: "drive_log w1 = drive_log w" by simp
  show ?case
  proof (cases c)
    case True
    with Last.prems c l1 show ?thesis by simp
  next
    case False
    obtain r1 file1 w2 where wc: "write_counted path b fl w1 = (r1, file1, w2)"
      by (metis prod_cases3)
    from write_counted_drive_log [OF wc] l1 have l2: "drive_log w2 = drive_log w" by simp
    from Last.prems c False wc have "w' = w2" by (cases r1; cases fin) simp_all
    with l2 show ?thesis by simp
  qed
qed

lemma fetch_requests:
  assumes run: "fetch e path start fl w = (r, fl', w')"
  shows "drive_log w' = drive_log w @
           [\<lparr>req_file = DriveID fl, req_range = (if 0 <s start then Some start else None)\<rparr>]"
proof -
  obtain res w1 where dr: "DownloadFileRange e (DriveID fl) start w = (res, w1)"
    by (cases "DownloadFileRange e (DriveID fl) start w")
  then have l1: "drive_log w1 = drive_log w @
           [\<lparr>req_file = DriveID fl, req_range = (if 0 <s start then Some start else None)\<rparr>]"
    by (auto simp: DownloadFileRange_def Let_def)
  show ?thesis
  proof (cases res)
    case (Inl err)
    with run dr have "w' = w1" by (simp add: fetch_def)
    with l1 show ?thesis by (simp only:)
  next
    case (Inr resp)
    show ?thesis
    proof (cases "StatusCode resp \<noteq> 200 \<and> StatusCode resp \<noteq> 206")
      case True
      with run dr Inr have "w' = w1" by (simp add: fetch_def)
      with l1 show ?thesis by (simp only:)
    next
      case False
      show ?thesis
      proof (cases "OpenFile e path (0 <s start) w1")
        case (Inl err)
        with run dr \<open>res = Inr resp\<close> False have "w' = w1" by (simp add: fetch_def)
        with l1 show ?thesis by (simp only:)
      next
        case (Inr w2)
        then have l2: "drive_log w2 = drive_log w1"
          by (auto simp: OpenFile_def split: option.splits if_splits)
        obtain r3 file3 w3 where cb: "copy_body path (Body resp) fl w2 = (r3, file3, w3)"
          by (metis prod_cases3)
        from run dr \<open>res = Inr resp\<close> False Inr cb have "w' = w3"
          by (cases r3) (simp_all add: fetch_def)
        with copy_body_drive_log [OF cb] l2 l1 show ?thesis by (simp only:)
      qed
    qed
  qed
qed

lemma DownloadFile_requests:
  assumes p: "local_path e fl = Some p" and run: "DownloadFile e fl w = (r, fl', w')"
    and short: "\<forall>content. files w p = Some content \<longrightarrow>
                  \<not> 0 <s Size fl \<or> of_nat (length content) <s Size fl"
  shows "drive_log w' = drive_log w @
           [\<lparr>req_file = DriveID fl,
             req_range = (case files w p of
                            None \<Rightarrow> None
                          | Some content \<Rightarrow>
                              if 0 <s (of_nat (length content) :: int64)
                              then Some (of_nat (length content)) else None)\<rparr>]"
proof -
  from p obtain dir where dir: "GetDownloadDir e = Inr dir" "p = Join e [dir, Name fl]"
    by (auto simp: local_path_def split: sum.splits)
  show ?thesis
  proof (cases "files w p")
    case None
    with dir run have "fetch e p 0 (fl\<lparr>LocalPath := p\<rparr>) w = (r, fl', w')"
      by (simp add: DownloadFile_def Let_def)
    from fetch_requests [OF this] None show ?thesis by simp
  next
    case (Some content)
    with short have "\<not> (0 <s Size fl \<and> Size fl \<le>s of_nat (length content))"
      by (auto simp: word_sless_alt word_sle_eq)
    with dir run Some
    have "fetch e p (of_nat (length content))
            (fl\<lparr>LocalPath := p, BytesDownloaded := of_nat (length content)\<rparr>) w = (r, fl', w')"
      by (auto simp: DownloadFile_def Let_def)
    from fetch_requests [OF this] Some show ?thesis by simp
  qed
qed

subsection \<open>Idempotent re-entry\<close>

lemmas archive_defs =
  photo_entry_def takeout_entries_def archive_env_def archive_world_def downloaded_job_def
  small_entries_def small_env_def dedup_env_def offline_env_def unsized_file_def
  stale_file_def finished_job_def

text \<open>
  C7, as the code has it. \<open>DownloadFile\<close> on a file of known size (\<open>Size > 0\<close>)
  whose local file exists and is at least that long returns success, sets
  \<open>Downloaded\<close>, and leaves the world as it was: no request is sent. In every other
  case, that is when there is no local file, when the size is not known (\<open>Size\<close> is 0
  or less) or when the local file is shorter than the size, it sends exactly one request,
  for the range that starts at the length of the local file (for the whole file when
  that length is 0); the flag \<open>Downloaded\<close> plays no part. \<open>ImportFiles\<close> on a job in
  which the key of every eligible entry is already in \<open>UploadedFiles\<close> sends no upload
  and leaves \<open>UploadedFiles\<close> and \<open>UploadedPhotos\<close> as they were.
\<close>

theorem reentry_idempotent:
  "(\<forall>p content. local_path e fl = Some p \<and> files w p = Some content \<and>
       0 <s Size fl \<and> Size fl \<le>s of_nat (length content) \<longrightarrow>
       DownloadFile e fl w =
         (None, fl\<lparr>LocalPath := p, BytesDownloaded := of_nat (length content),
                    Downloaded := True\<rparr>, w)) \<and>
   (\<forall>p r fl' w'. local_path e fl = Some p \<and> DownloadFile e fl w = (r, fl', w') \<and>
       (\<forall>content. files w p = Some content \<longrightarrow>
          \<not> 0 <s Size fl \<or> of_nat (length content) <s Size fl) \<longrightarrow>
       drive_log w' = drive_log w @
         [\<lparr>req_file = DriveID fl,
           req_range = (case files w p of
                          None \<Rightarrow> None
                        | Some content \<Rightarrow>
                            if 0 <s (of_nat (length content) :: int64)
                            then Some (of_nat (length content)) else None)\<rparr>]) \<and>
   (set (eligible_keys e w job) \<subseteq> set (UploadedFiles (init_upload job)) \<longrightarrow>
      (case ImportFiles e job w of
         (r, job', w') \<Rightarrow>
           immich_log w' = immich_log w \<and>
           map_option UploadedFiles (UploadState job') = Some (UploadedFiles (init_upload job)) \<and>
           map_option UploadedPhotos (UploadState job') = Some (UploadedPhotos (init_upload job))))"
proof -
  have a: "\<forall>p content. local_path e fl = Some p \<and> files w p = Some content \<and>
       0 <s Size fl \<and> Size fl \<le>s of_nat (length content) \<longrightarrow>
       DownloadFile e fl w =
         (None, fl\<lparr>LocalPath := p, BytesDownloaded := of_nat (length content),
                    Downloaded := True\<rparr>, w)"
    using DownloadFile_complete by blast
  have b: "\<forall>p r fl' w'. local_path e fl = Some p \<and> DownloadFile e fl w = (r, fl', w') \<and>
       (\<forall>content. files w p = Some content \<longrightarrow>
          \<not> 0 <s Size fl \<or> of_nat (length content) <s Size fl) \<longrightarrow>
       drive_log w' = drive_log w @
         [\<lparr>req_file = DriveID fl,
           req_range = (case files w p of
                          None \<Rightarrow> None
                        | Some content \<Rightarrow>
                            if 0 <s (of_nat (length content) :: int64)
                            then Some (of_nat (length content)) else None)\<rparr>]"
  proof (intro allI, rule impI)
    fix p r fl' w'
    assume h: "local_path e fl = Some p \<and> DownloadFile e fl w = (r, fl', w') \<and>
       (\<forall>content. files w p = Some content \<longrightarrow>
          \<not> 0 <s Size fl \<or> of_nat (length content) <s Size fl)"
    show "drive_log w' = drive_log w @
         [\<lparr>req_file = DriveID fl,
           req_range = (case files w p of
                          None \<Rightarrow> None
                        | Some content \<Rightarrow>
                            if 0 <s (of_nat (length content) :: int64)
                            then Some (of_nat (length content)) else None)\<rparr>]"
      by (rule DownloadFile_requests [of e fl p w r fl' w']) (use h in blast)+
  qed
  have c: "set (eligible_keys e w job) \<subseteq> set (UploadedFiles (init_upload job)) \<longrightarrow>
      (case ImportFiles e job w of
         (r, job', w') \<Rightarrow>
           immich_log w' = immich_log w \<and>
           map_option UploadedFiles (UploadState job') = Some (UploadedFiles (init_upload job)) \<and>
           map_option UploadedPhotos (UploadState job') = Some (UploadedPhotos (init_upload job)))"
  proof
    assume known: "set (eligible_keys e w job) \<subseteq> set (UploadedFiles (init_upload job))"
    obtain r job' w' where run: "ImportFiles e job w = (r, job', w')"
      by (cases "ImportFiles e job w")
    from ImportFiles_known [OF known run] run
    show "case ImportFiles e job w of
         (r, job', w') \<Rightarrow>
           immich_log w' = immich_log w \<and>
           map_option UploadedFiles (UploadState job') = Some (UploadedFiles (init_upload job)) \<and>
           map_option UploadedPhotos (UploadState job') = Some (UploadedPhotos (init_upload job))"
      by (auto simp: quiet_def)
  qed
  show ?thesis by (rule conjI [OF a conjI [OF b c]])
qed

theorem reentry_idempotent_witness:
  "local_path example_env takeout_file = Some takeout_zip \<and>
   files archive_world takeout_zip = Some ''helloworld'' \<and>
   0 <s Size takeout_file \<and> Size takeout_file \<le>s of_nat (length ''helloworld'') \<and>
   DownloadFile example_env takeout_file archive_world =
     (None, takeout_file\<lparr>LocalPath := takeout_zip, BytesDownloaded := 10, Downloaded := True\<rparr>,
      archive_world) \<and>
   local_path example_env unsized_file = Some takeout_zip \<and> \<not> 0 <s Size unsized_file \<and>
   drive_log (snd (snd (DownloadFile example_env unsized_file archive_world)))
     = [\<lparr>req_file = ''drive-1'', req_range = Some 10\<rparr>] \<and>
   files half_world takeout_zip = Some ''hello'' \<and>
   (of_nat (length ''hello'') :: int64) <s Size takeout_file \<and>
   drive_log (snd (snd (DownloadFile example_env takeout_file half_world)))
     = [\<lparr>req_file = ''drive-1'', req_range = Some 5\<rparr>] \<and>
   set (eligible_keys small_env archive_world finished_job)
     \<subseteq> set (UploadedFiles (init_upload finished_job)) \<and>
   (case ImportFiles small_env finished_job archive_world of
      (r, job', w') \<Rightarrow>
        immich_log w' = [] \<and>
        map_option UploadedFiles (UploadState job') =
          Some [takeout_zip @ '':a.jpg'', takeout_zip @ '':b.PNG''] \<and>
        map_option UploadedPhotos (UploadState job') = Some 2)"
proof -
  have h1: "local_path example_env takeout_file = Some takeout_zip"
    by (simp add: local_path_def GetDownloadDir_def appDataDir_def example_defs)
  have h2: "files archive_world takeout_zip = Some ''helloworld''"
    by (simp add: archive_world_def example_defs)
  have h3: "0 <s Size takeout_file \<and> Size takeout_file \<le>s of_nat (length ''helloworld'')"
    by (simp add: example_defs word_sless_alt word_sle_eq)
  have h4: "set (eligible_keys small_env archive_world finished_job)
              \<subseteq> set (UploadedFiles (init_upload finished_job))"
    by code_simp
  have u: "UploadedFiles (init_upload finished_job) = [takeout_zip @ '':a.jpg'', takeout_zip @ '':b.PNG'']"
      "UploadedPhotos (init_upload finished_job) = 2" "immich_log archive_world = []"
    by (simp_all add: init_upload_def finished_job_def archive_world_def example_defs)
  from h1 h2 h3 have h: "local_path example_env takeout_file = Some takeout_zip \<and>
      files archive_world takeout_zip = Some ''helloworld'' \<and>
      0 <s Size takeout_file \<and> Size takeout_file \<le>s of_nat (length ''helloworld'')"
    by blast
  have d: "DownloadFile example_env takeout_file archive_world =
     (None, takeout_file\<lparr>LocalPath := takeout_zip, BytesDownloaded := 10, Downloaded := True\<rparr>,
      archive_world)"
    using reentry_idempotent [of example_env takeout_file archive_world, THEN conjunct1,
        THEN spec, THEN spec, THEN mp, OF h]
    by simp
  have g1: "local_path example_env unsized_file = Some takeout_zip"
    by (simp add: local_path_def GetDownloadDir_def appDataDir_def example_defs unsized_file_def)
  have g2: "\<not> 0 <s Size unsized_file"
    by (simp add: unsized_file_def example_defs)
  obtain r1 f1 w1 where run1: "DownloadFile example_env unsized_file archive_world = (r1, f1, w1)"
    by (metis prod_cases3)
  from g2 have g3: "\<forall>content. files archive_world takeout_zip = Some content \<longrightarrow>
      \<not> 0 <s Size unsized_file \<or> of_nat (length content) <s Size unsized_file"
    by simp
  from reentry_idempotent [of example_env unsized_file archive_world, THEN conjunct2,
      THEN conjunct1, rule_format, OF conjI, OF g1 conjI, OF run1 g3]
  have "drive_log w1 = drive_log archive_world @
      [\<lparr>req_file = DriveID unsized_file,
        req_range = (case files archive_world takeout_zip of
                       None \<Rightarrow> None
                     | Some content \<Rightarrow>
                         if 0 <s (of_nat (length content) :: int64)
                         then Some (of_nat (length content)) else None)\<rparr>]" .
  with run1 h2 have q1: "drive_log (snd (snd (DownloadFile example_env unsized_file archive_world)))
      = [\<lparr>req_file = ''drive-1'', req_range = Some 10\<rparr>]"
    by (simp add: archive_world_def unsized_file_def example_defs word_sless_alt)
  have k1: "files half_world takeout_zip = Some ''hello''"
    by (simp add: half_world_def example_defs)
  have k2: "(of_nat (length ''hello'') :: int64) <s Size takeout_file"
    by (simp add: example_defs word_sless_alt)
  obtain r2 f2 w2 where run2: "DownloadFile example_env takeout_file half_world = (r2, f2, w2)"
    by (metis prod_cases3)
  from k1 k2 have k3: "\<forall>content. files half_world takeout_zip = Some content \<longrightarrow>
      \<not> 0 <s Size takeout_file \<or> of_nat (length content) <s Size takeout_file"
    by simp
  from reentry_idempotent [of example_env takeout_file half_world, THEN conjunct2,
      THEN conjunct1, rule_format, OF conjI, OF h1 conjI, OF run2 k3]
  have "drive_log w2 = drive_log half_world @
      [\<lparr>req_file = DriveID takeout_file,
        req_range = (case files half_world takeout_zip of
                       None \<Rightarrow> None
                     | Some content \<Rightarrow>
                         if 0 <s (of_nat (length content) :: int64)
                         then Some (of_nat (length content)) else None)\<rparr>]" .
  with run2 k1 have q2: "drive_log (snd (snd (DownloadFile example_env takeout_file half_world)))
      = [\<lparr>req_file = ''drive-1'', req_range = Some 5\<rparr>]"
    by (simp add: half_world_def example_defs word_sless_alt)
  have i: "case ImportFiles small_env finished_job archive_world of
      (r, job', w') \<Rightarrow>
        immich_log w' = immich_log archive_world \<and>
        map_option UploadedFiles (UploadState job') = Some (UploadedFiles (init_upload finished_job)) \<and>
        map_option UploadedPhotos (UploadState job') = Some (UploadedPhotos (init_upload finished_job))"
    using reentry_idempotent [of small_env takeout_file archive_world finished_job,
        THEN conjunct2, THEN conjunct2, THEN mp, OF h4] .
  from i u have i': "case ImportFiles small_env finished_job archive_world of
      (r, job', w') \<Rightarrow>
        immich_log w' = [] \<and>
        map_option UploadedFiles (UploadState job') =
          Some [takeout_zip @ '':a.jpg'', takeout_zip @ '':b.PNG''] \<and>
        map_option UploadedPhotos (UploadState job') = Some 2"
    by (simp only:)
  from h1 h2 h3 d g1 g2 q1 k1 k2 q2 h4 i' show ?thesis by (intro conjI) simp_all
qed

text \<open>
  C7, as stated, fails: a file that is marked downloaded and whose ten local bytes are
  at least its expected size, which is 0 (not known), is requested again from byte 10,
  and the answer is appended. And on a job whose two eligible entries are both in
  \<open>UploadedFiles\<close>, \<open>ImportFiles\<close> sends no upload but raises \<open>TotalPhotos\<close> from 2
  to 4, so that the ledger is not as it was.
\<close>

theorem unsized_file_is_fetched_again:
  "Downloaded unsized_file \<and> Size unsized_file = 0 \<and>
   files archive_world takeout_zip = Some ''helloworld'' \<and>
   (case DownloadFile example_env unsized_file archive_world of
      (r, fl, w) \<Rightarrow>
        drive_log w = [\<lparr>req_file = ''drive-1'', req_range = Some 10\<rparr>] \<and>
        files w takeout_zip = Some ''helloworldhelloworld'') \<and>
   set (eligible_keys small_env archive_world finished_job)
     \<subseteq> set (UploadedFiles (init_upload finished_job)) \<and>
   map_option TotalPhotos (UploadState finished_job) = Some 2 \<and>
   (case ImportFiles small_env finished_job archive_world of
      (r, job', w') \<Rightarrow>
        r = None \<and> immich_log w' = [] \<and>
        map_option TotalPhotos (UploadState job') = Some 4)"
proof -
  have a: "Downloaded unsized_file" "Size unsized_file = 0"
    "files archive_world takeout_zip = Some ''helloworld''"
    by (simp_all add: example_defs archive_defs)
  have b: "case DownloadFile example_env unsized_file archive_world of
      (r, fl, w) \<Rightarrow>
        drive_log w = [\<lparr>req_file = ''drive-1'', req_range = Some 10\<rparr>] \<and>
        files w takeout_zip = Some ''helloworldhelloworld''"
    by (simp add: DownloadFile_def GetDownloadDir_def appDataDir_def example_defs archive_defs
          fetch_def DownloadFileRange_def OpenFile_def write_counted_def Write_def append_file_def
          ctx_done_def word_sless_alt word_sle_eq Let_def)
  have c: "set (eligible_keys small_env archive_world finished_job)
      \<subseteq> set (UploadedFiles (init_upload finished_job))"
    by code_simp
  have d: "map_option TotalPhotos (UploadState finished_job) = Some 2"
    by (simp add: finished_job_def)
  have i: "case ImportFiles small_env finished_job archive_world of
      (r, job', w') \<Rightarrow>
        r = None \<and> immich_log w' = [] \<and>
        map_option TotalPhotos (UploadState job') = Some 4"
    by code_simp
  from a b c d i show ?thesis by (intro conjI)
qed

subsection \<open>The invariant of the upload ledger\<close>

lemma ledger_inv_append:
  assumes "ledger_inv u" and "UploadedFiles u' = UploadedFiles u @ added"
    and "UploadedPhotos u' = UploadedPhotos u + of_nat (length added)"
    and "distinct added" and "set added \<inter> set (UploadedFiles u) = {}"
  shows "ledger_inv u'"
proof -
  from assms(4,5) have "card (set (UploadedFiles u @ added)) = card (set (UploadedFiles u)) + length added"
    by (simp add: card_Un_disjoint distinct_card Int_commute)
  with assms(1,2,3) show ?thesis by (simp add: ledger_inv_def)
qed

text \<open>
  C6. \<open>UploadedPhotos\<close> equals the number of distinct keys in \<open>UploadedFiles\<close>, and
  stays so: when it holds of the ledger a job enters with (a new job has no ledger, and
  \<open>ImportFiles\<close> starts it at zero and empty), it holds after every iteration of the
  entry loop, where the uploaded set is the set of the keys, and when \<open>ImportFiles\<close>
  returns, with or without an error. Keys are only appended: the old list is kept at
  the front, and the keys added are distinct and were not in the list before.
\<close>

theorem upload_ledger_invariant:
  "(\<forall>zipPath f job us w r job' us' w' u.
      entry_step e zipPath f (job, us, w) = (r, job', us', w') \<and>
      UploadState job = Some u \<and> us = set (UploadedFiles u) \<and> ledger_inv u \<longrightarrow>
      (\<exists>u'. UploadState job' = Some u' \<and> us' = set (UploadedFiles u') \<and> ledger_inv u' \<and>
            prefix (UploadedFiles u) (UploadedFiles u'))) \<and>
   (\<forall>job w r job' w'.
      ImportFiles e job w = (r, job', w') \<and> ledger_inv (init_upload job) \<longrightarrow>
      (\<exists>u' added. UploadState job' = Some u' \<and> ledger_inv u' \<and>
            UploadedFiles u' = UploadedFiles (init_upload job) @ added \<and>
            distinct added \<and> set added \<inter> set (UploadedFiles (init_upload job)) = {}))"
proof (intro conjI allI impI)
  fix zipPath f job us w r job' us' w' u
  assume a: "entry_step e zipPath f (job, us, w) = (r, job', us', w') \<and>
      UploadState job = Some u \<and> us = set (UploadedFiles u) \<and> ledger_inv u"
  then have st: "entry_step e zipPath f (job, us, w) = (r, job', us', w')"
    and u: "UploadState job = Some u" and us: "us = set (UploadedFiles u)" and inv: "ledger_inv u"
    by blast+
  let ?key = "zipPath @ '':'' @ entry_name f"
  from entry_step_rel [OF st] u
  consider "UploadState job' = Some u" "us' = us"
    | "?key \<notin> us" "us' = insert ?key us"
      "UploadState job' = Some (u\<lparr>UploadedFiles := UploadedFiles u @ [?key],
                                   UploadedPhotos := UploadedPhotos u + 1\<rparr>)"
    by (auto simp: step_rel_def)
  then show "\<exists>u'. UploadState job' = Some u' \<and> us' = set (UploadedFiles u') \<and> ledger_inv u' \<and>
            prefix (UploadedFiles u) (UploadedFiles u')"
  proof cases
    case 1
    with us inv show ?thesis by simp
  next
    case 2
    let ?u' = "u\<lparr>UploadedFiles := UploadedFiles u @ [?key], UploadedPhotos := UploadedPhotos u + 1\<rparr>"
    from 2(1) us have "ledger_inv ?u'"
      by (intro ledger_inv_append [OF inv, of ?u' "[?key]"]) simp_all
    moreover from 2(2) us have "us' = set (UploadedFiles ?u')" by simp
    ultimately show ?thesis using 2(3) by simp
  qed
next
  fix job w r job' w'
  assume "ImportFiles e job w = (r, job', w') \<and> ledger_inv (init_upload job)"
  then have run: "ImportFiles e job w = (r, job', w')" and inv: "ledger_inv (init_upload job)"
    by simp_all
  from ImportFiles_ledger [OF run] obtain u' added where
    u': "UploadState job' = Some u'" "UploadedFiles u' = UploadedFiles (init_upload job) @ added"
      "UploadedPhotos u' = UploadedPhotos (init_upload job) + of_nat (length added)"
      "distinct added" "set added \<inter> set (UploadedFiles (init_upload job)) = {}"
    by blast
  from ledger_inv_append [OF inv u'(2,3,4,5)] have "ledger_inv u'" .
  with u' show "\<exists>u' added. UploadState job' = Some u' \<and> ledger_inv u' \<and>
            UploadedFiles u' = UploadedFiles (init_upload job) @ added \<and>
            distinct added \<and> set added \<inter> set (UploadedFiles (init_upload job)) = {}"
    by blast
qed

theorem upload_ledger_invariant_witness:
  "UploadState started_job = Some \<lparr>TotalPhotos = 2, UploadedPhotos = 0, UploadedFiles = []\<rparr> \<and>
   ledger_inv \<lparr>TotalPhotos = 2, UploadedPhotos = 0, UploadedFiles = []\<rparr> \<and>
   (case entry_step small_env takeout_zip (photo_entry ''a.jpg'') (started_job, {}, archive_world) of
      (r, job', us', w') \<Rightarrow>
        map_option ledger_inv (UploadState job') = Some True \<and>
        map_option UploadedFiles (UploadState job') = Some [takeout_zip @ '':a.jpg'']) \<and>
   ledger_inv (init_upload downloaded_job) \<and>
   (case ImportFiles small_env downloaded_job archive_world of
      (r, job', w') \<Rightarrow>
        map_option ledger_inv (UploadState job') = Some True \<and>
        map_option UploadedFiles (UploadState job') =
          Some [takeout_zip @ '':a.jpg'', takeout_zip @ '':b.PNG''])"
proof -
  let ?u = "\<lparr>TotalPhotos = 2, UploadedPhotos = 0, UploadedFiles = []\<rparr>"
  have s1: "UploadState started_job = Some ?u"
    by (simp add: started_job_def)
  have s2: "ledger_inv ?u" by (simp add: ledger_inv_def)
  have s3: "{} = set (UploadedFiles ?u)" by simp
  obtain r job' us' w' where st:
    "entry_step small_env takeout_zip (photo_entry ''a.jpg'') (started_job, {}, archive_world)
       = (r, job', us', w')"
    by (metis prod_cases4)
  from upload_ledger_invariant [of small_env, THEN conjunct1, rule_format, OF conjI, OF st conjI,
      OF s1 conjI, OF s3 s2]
  obtain u' where a: "UploadState job' = Some u'" "ledger_inv u'" by blast
  have ev1: "case entry_step small_env takeout_zip (photo_entry ''a.jpg'') (started_job, {}, archive_world) of
      (r, job', us', w') \<Rightarrow>
        map_option UploadedFiles (UploadState job') = Some [takeout_zip @ '':a.jpg'']"
    by code_simp
  from a ev1 st have p1: "case entry_step small_env takeout_zip (photo_entry ''a.jpg'') (started_job, {}, archive_world) of
      (r, job', us', w') \<Rightarrow>
        map_option ledger_inv (UploadState job') = Some True \<and>
        map_option UploadedFiles (UploadState job') = Some [takeout_zip @ '':a.jpg'']"
    by simp
  have h: "ledger_inv (init_upload downloaded_job)"
    by (simp add: ledger_inv_def init_upload_def downloaded_job_def example_defs)
  obtain r2 job2 w2 where run: "ImportFiles small_env downloaded_job archive_world = (r2, job2, w2)"
    by (cases "ImportFiles small_env downloaded_job archive_world")
  from upload_ledger_invariant [of small_env, THEN conjunct2, rule_format, OF conjI, OF run h]
  obtain u2 where b: "UploadState job2 = Some u2" "ledger_inv u2" by blast
  have ev2: "case ImportFiles small_env downloaded_job archive_world of
      (r, job', w') \<Rightarrow>
        map_option UploadedFiles (UploadState job') =
          Some [takeout_zip @ '':a.jpg'', takeout_zip @ '':b.PNG'']"
    by code_simp
  from b ev2 run have p2: "case ImportFiles small_env downloaded_job archive_world of
      (r, job', w') \<Rightarrow>
        map_option ledger_inv (UploadState job') = Some True \<and>
        map_option UploadedFiles (UploadState job') =
          Some [takeout_zip @ '':a.jpg'', takeout_zip @ '':b.PNG'']"
    by simp
  from s1 s2 p1 h p2 show ?thesis by blast
qed

subsection \<open>Duplicates\<close>

lemma uploadAsset_duplicate:
  assumes ans: "immich e (immich_log w) (asset_request filename content modTime) = Inr resp"
    and dup: "duplicate_answer e resp"
  shows "uploadAsset e filename content modTime w =
           (None, w\<lparr>immich_log := immich_log w @ [asset_request filename content modTime]\<rparr>)"
proof -
  from dup obtain msg where "json_message e (up_body resp) = Some msg" "Contains msg ''duplicate''"
    "up_status resp \<noteq> 201" "up_status resp \<noteq> 200"
    by (auto simp: duplicate_answer_def split: option.splits)
  with ans show ?thesis by (simp add: uploadAsset_def Let_def)
qed

lemma ctx_done_alive:
  assumes "polls w \<noteq> Some 0"
  shows "\<exists>w1. ctx_done w = (False, w1)"
proof (cases "polls w")
  case None
  then show ?thesis by (simp add: ctx_done_def)
next
  case (Some n)
  with assms obtain m where "n = Suc m" by (cases n) auto
  with Some show ?thesis by (simp add: ctx_done_def)
qed

text \<open>
  C9. When the context is not cancelled, the key of the entry is not yet in the uploaded
  set, the entry can be read, and the service answers its upload with a duplicate (a
  status other than 200 and 201 and a message that contains \<open>duplicate\<close>), the
  iteration ends without error: the key is appended to \<open>UploadedFiles\<close> and put into the
  uploaded set, \<open>UploadedPhotos\<close> is incremented, and the loop goes on with the next
  entry.
\<close>

theorem duplicate_is_success:
  assumes ctx: "polls w \<noteq> Some 0"
    and new: "zipPath @ '':'' @ entry_name f \<notin> us"
    and led: "UploadState job = Some u"
    and data: "entry_data f = Inr content"
    and ans: "immich e (immich_log w)
                (asset_request (Base (entry_name f)) content
                   (case entry_modified f of None \<Rightarrow> clock w | Some t \<Rightarrow> t)) = Inr resp"
    and dup: "duplicate_answer e resp"
  shows "\<exists>job' w'.
           entry_step e zipPath f (job, us, w)
             = (None, job', insert (zipPath @ '':'' @ entry_name f) us, w') \<and>
           UploadState job' =
             Some (u\<lparr>UploadedFiles := UploadedFiles u @ [zipPath @ '':'' @ entry_name f],
                     UploadedPhotos := UploadedPhotos u + 1\<rparr>) \<and>
           upload_entries e zipPath (f # rest) (job, us, w)
             = upload_entries e zipPath rest
                 (job', insert (zipPath @ '':'' @ entry_name f) us, w')"
proof -
  let ?key = "zipPath @ '':'' @ entry_name f"
  from ctx_done_alive [OF ctx] obtain w1 where c: "ctx_done w = (False, w1)" by blast
  from ctx_done_fields [OF c] have w1: "immich_log w1 = immich_log w" "clock w1 = clock w"
    by simp_all
  let ?w2 = "w1\<lparr>progress_log := progress_log w1 @
               [(''uploading'', UploadedPhotos u, TotalPhotos u, entry_name f)]\<rparr>"
  let ?mod = "case entry_modified f of None \<Rightarrow> clock w | Some t \<Rightarrow> t"
  let ?req = "asset_request (Base (entry_name f)) content ?mod"
  from ans w1 have "immich e (immich_log ?w2) ?req = Inr resp" by simp
  from uploadAsset_duplicate [OF this dup]
  have up: "uploadZipEntry e f ?w2 = (None, ?w2\<lparr>immich_log := immich_log ?w2 @ [?req]\<rparr>)"
    using data w1 by (cases "entry_modified f") (simp_all add: uploadZipEntry_def Let_def)
  let ?w3 = "?w2\<lparr>immich_log := immich_log ?w2 @ [?req]\<rparr>"
  let ?u1 = "u\<lparr>UploadedFiles := UploadedFiles u @ [?key], UploadedPhotos := UploadedPhotos u + 1\<rparr>"
  let ?job1 = "job\<lparr>UploadState := Some ?u1\<rparr>"
  obtain r2 job2 w4 where sv: "Save e ?job1 ?w3 = (r2, job2, w4)" by (metis prod_cases3)
  from Save_fields [OF sv] have j2: "UploadState job2 = Some ?u1" by simp
  show ?thesis
  proof (cases "go_rem (sint (UploadedPhotos ?u1)) 100 = 0")
    case True
    with c new led up sv have
      st: "entry_step e zipPath f (job, us, w) = (None, job2, insert ?key us, w4)"
      by (simp add: entry_step_def Let_def)
    then have "upload_entries e zipPath (f # rest) (job, us, w)
             = upload_entries e zipPath rest (job2, insert ?key us, w4)"
      by simp
    with st j2 show ?thesis by blast
  next
    case False
    with c new led up have
      st: "entry_step e zipPath f (job, us, w) = (None, ?job1, insert ?key us, ?w3)"
      by (simp add: entry_step_def Let_def)
    then have "upload_entries e zipPath (f # rest) (job, us, w)
             = upload_entries e zipPath rest (?job1, insert ?key us, ?w3)"
      by simp
    moreover have "UploadState ?job1 = Some ?u1" by simp
    ultimately show ?thesis using st by blast
  qed
qed

theorem duplicate_is_success_witness:
  "polls archive_world \<noteq> Some 0 \<and>
   entry_data (photo_entry ''a.jpg'') = Inr ''bytes of a.jpg'' \<and>
   immich dedup_env (immich_log archive_world)
     (asset_request (Base (entry_name (photo_entry ''a.jpg''))) ''bytes of a.jpg'' 5)
     = Inr \<lparr>up_status = 409, up_body = ''{message: duplicate asset}''\<rparr> \<and>
   duplicate_answer dedup_env \<lparr>up_status = 409, up_body = ''{message: duplicate asset}''\<rparr> \<and>
   (case entry_step dedup_env takeout_zip (photo_entry ''a.jpg'') (started_job, {}, archive_world) of
      (r, job', us', w') \<Rightarrow>
        r = None \<and> us' = {takeout_zip @ '':a.jpg''} \<and>
        UploadState job' =
          Some \<lparr>TotalPhotos = 2, UploadedPhotos = 1, UploadedFiles = [takeout_zip @ '':a.jpg'']\<rparr>)"
proof -
  let ?f = "photo_entry ''a.jpg''"
  let ?resp = "\<lparr>up_status = 409, up_body = ''{message: duplicate asset}''\<rparr>"
  let ?u = "\<lparr>TotalPhotos = 2, UploadedPhotos = 0, UploadedFiles = []\<rparr>"
  have h1: "polls archive_world \<noteq> Some 0"
    by (simp add: archive_world_def example_defs)
  have h2: "takeout_zip @ '':'' @ entry_name ?f \<notin> {}" by simp
  have h3: "UploadState started_job = Some ?u" by (simp add: started_job_def)
  have h4: "entry_data ?f = Inr ''bytes of a.jpg''" by (simp add: photo_entry_def)
  have m: "(case entry_modified ?f of None \<Rightarrow> clock archive_world | Some t \<Rightarrow> t) = 5"
    by (simp add: photo_entry_def)
  have h5: "immich dedup_env (immich_log archive_world)
     (asset_request (Base (entry_name ?f)) ''bytes of a.jpg'' 5) = Inr ?resp"
    by (simp add: dedup_env_def small_env_def example_defs)
  have h6: "duplicate_answer dedup_env ?resp"
    by (simp add: duplicate_answer_def dedup_env_def small_env_def example_defs)
  from h5 m have h5': "immich dedup_env (immich_log archive_world)
     (asset_request (Base (entry_name ?f)) ''bytes of a.jpg''
        (case entry_modified ?f of None \<Rightarrow> clock archive_world | Some t \<Rightarrow> t)) = Inr ?resp"
    by (simp only:)
  from duplicate_is_success [OF h1 h2 h3 h4 h5' h6, of "[]"]
  obtain job' w' where
    st: "entry_step dedup_env takeout_zip ?f (started_job, {}, archive_world)
           = (None, job', insert (takeout_zip @ '':'' @ entry_name ?f) {}, w')"
    and u: "UploadState job' =
             Some (?u\<lparr>UploadedFiles := UploadedFiles ?u @ [takeout_zip @ '':'' @ entry_name ?f],
                      UploadedPhotos := UploadedPhotos ?u + 1\<rparr>)"
    by blast
  have n: "entry_name ?f = ''a.jpg''" by (simp add: photo_entry_def)
  from st u n have c: "case entry_step dedup_env takeout_zip ?f (started_job, {}, archive_world) of
      (r, job', us', w') \<Rightarrow>
        r = None \<and> us' = {takeout_zip @ '':a.jpg''} \<and>
        UploadState job' =
          Some \<lparr>TotalPhotos = 2, UploadedPhotos = 1, UploadedFiles = [takeout_zip @ '':a.jpg'']\<rparr>"
    by simp
  from h1 h4 h5 h6 c show ?thesis by blast
qed

subsection \<open>The total of eligible entries\<close>

text \<open>
  C3 does not hold of the code. \<open>processZipFile\<close> adds the number of eligible entries
  to \<open>TotalPhotos\<close> each time it opens the archive. The first run over the archive of
  twenty photos and five sidecars counts 20 and uploads 20; a second run over the job
  it leaves, as after a restart, uploads nothing more and counts the twenty again.
\<close>

theorem total_counted_again_on_second_run:
  "(case ImportFiles archive_env downloaded_job archive_world of
      (r, job, w) \<Rightarrow>
        r = None \<and> map_option TotalPhotos (UploadState job) = Some 20 \<and>
        map_option UploadedPhotos (UploadState job) = Some 20 \<and> length (immich_log w) = 20 \<and>
        (case ImportFiles archive_env job w of
           (r2, job2, w2) \<Rightarrow>
             r2 = None \<and> map_option TotalPhotos (UploadState job2) = Some 40 \<and>
             map_option UploadedPhotos (UploadState job2) = Some 20 \<and>
             length (immich_log w2) = 20))"
  by code_simp

subsection \<open>Writes that cannot fail\<close>

lemma Write_no_faults:
  assumes "write_faults w = None" and "Write path b w = (r, w')"
  shows "r = None" and "write_faults w' = None" and "w' = append_file path b w"
  using assms by (auto simp: Write_def append_file_def)

lemma Save_persisted:
  assumes ok: "disk_ok e" and nf: "write_faults w = None" and sv: "Save e s w = (r, s', w')"
  shows "r = None \<and> persisted e s' w' \<and> write_faults w' = None"
proof -
  from ok obtain path where p: "statePath e = Inr path" "mkdir_err e (Dir e path) = None"
    "open_err e path = None"
    by (auto simp: disk_ok_def split: sum.splits)
  from ok obtain data where d: "marshal e (s\<lparr>UpdatedAt := clock w\<rparr>) = Inr data"
    by (auto simp: disk_ok_def split: sum.splits) (metis sum.exhaust sum.simps(5))
  let ?w0 = "w\<lparr>files := (files w)(path := Some [])\<rparr>"
  obtain r1 w1 where wr: "Write path data ?w0 = (r1, w1)" by (cases "Write path data ?w0")
  from nf have "write_faults ?w0 = None" by simp
  note w1 = Write_no_faults [OF this wr]
  from sv p d wr have "r = r1" "s' = s\<lparr>UpdatedAt := clock w\<rparr>" "w' = w1"
    by (simp_all add: Save_def Let_def WriteFile_def)
  with w1 p d show ?thesis by (simp add: persisted_def append_file_def)
qed

lemma write_counted_no_faults:
  assumes "write_faults w = None" and "write_counted path b fl w = (r, fl', w')"
  shows "write_faults w' = None"
proof (cases "0 < length b")
  case True
  obtain r1 w1 where wr: "Write path b w = (r1, w1)" by (cases "Write path b w")
  note w1 = Write_no_faults [OF assms(1) wr]
  with assms(2) True wr show ?thesis by (simp add: write_counted_def)
next
  case False
  with assms show ?thesis by (simp add: write_counted_def)
qed

lemma ctx_done_no_faults:
  assumes "write_faults w = None" and "ctx_done w = (c, w1)"
  shows "write_faults w1 = None"
  using ctx_done_fields [OF assms(2)] assms(1) by simp

lemma copy_body_no_faults:
  "write_faults w = None \<Longrightarrow> copy_body path bd fl w = (r, fl', w') \<Longrightarrow> write_faults w' = None"
proof (induction bd arbitrary: fl w)
  case (Chunk b rest)
  obtain c w1 where c: "ctx_done w = (c, w1)" by (cases "ctx_done w")
  from ctx_done_no_faults [OF Chunk.prems(1) c] have nf1: "write_faults w1 = None" .
  show ?case
  proof (cases c)
    case True
    with Chunk.prems c nf1 show ?thesis by simp
  next
    case False
    obtain r1 file1 w2 where wc: "write_counted path b fl w1 = (r1, file1, w2)"
      by (metis prod_cases3)
    from write_counted_no_faults [OF nf1 wc] have nf2: "write_faults w2 = None" .
    show ?thesis
    proof (cases r1)
      case None
      with Chunk.prems c False wc have "copy_body path rest file1 w2 = (r, fl', w')" by simp
      from Chunk.IH [OF nf2 this] show ?thesis .
    next
      case (Some err)
      with Chunk.prems c False wc nf2 show ?thesis by simp
    qed
  qed
next
  case (Last b fin)
  obtain c w1 where c: "ctx_done w = (c, w1)" by (cases "ctx_done w")
  from ctx_done_no_faults [OF Last.prems(1) c] have nf1: "write_faults w1 = None" .
  show ?case
  proof (cases c)
    case True
    with Last.prems c nf1 show ?thesis by simp
  next
    case False
    obtain r1 file1 w2 where wc: "write_counted path b fl w1 = (r1, file1, w2)"
      by (metis prod_cases3)
    from write_counted_no_faults [OF nf1 wc] have nf2: "write_faults w2 = None" .
    from Last.prems c False wc have "w' = w2" by (cases r1; cases fin) simp_all
    with nf2 show ?thesis by simp
  qed
qed

lemma fetch_no_faults:
  assumes nf: "write_faults w = None" and run: "fetch e path start fl w = (r, fl', w')"
  shows "write_faults w' = None"
proof -
  obtain res w1 where dr: "DownloadFileRange e (DriveID fl) start w = (res, w1)"
    by (cases "DownloadFileRange e (DriveID fl) start w")
  with nf have nf1: "write_faults w1 = None" by (auto simp: DownloadFileRange_def Let_def)
  show ?thesis
  proof (cases res)
    case (Inl err)
    with run dr nf1 show ?thesis by (simp add: fetch_def)
  next
    case (Inr resp)
    show ?thesis
    proof (cases "StatusCode resp \<noteq> 200 \<and> StatusCode resp \<noteq> 206")
      case True
      with run dr Inr nf1 show ?thesis by (simp add: fetch_def)
    next
      case False
      show ?thesis
      proof (cases "OpenFile e path (0 <s start) w1")
        case (Inl err)
        with run dr \<open>res = Inr resp\<close> False nf1 show ?thesis by (simp add: fetch_def)
      next
        case (Inr w2)
        with nf1 have nf2: "write_faults w2 = None"
          by (auto simp: OpenFile_def split: option.splits if_splits)
        obtain r3 file3 w3 where cb: "copy_body path (Body resp) fl w2 = (r3, file3, w3)"
          by (metis prod_cases3)
        from copy_body_no_faults [OF nf2 cb] have "write_faults w3 = None" .
        moreover from run dr \<open>res = Inr resp\<close> False Inr cb have "w' = w3"
          by (cases r3) (simp_all add: fetch_def)
        ultimately show ?thesis by simp
      qed
    qed
  qed
qed

lemma DownloadFile_no_faults:
  assumes nf: "write_faults w = None" and run: "DownloadFile e fl w = (r, fl', w')"
  shows "write_faults w' = None"
proof (cases "GetDownloadDir e")
  case (Inl err)
  with run nf show ?thesis by (simp add: DownloadFile_def)
next
  case (Inr dir)
  let ?p = "Join e [dir, Name fl]"
  show ?thesis
  proof (cases "files w ?p")
    case None
    with Inr run have "fetch e ?p 0 (fl\<lparr>LocalPath := ?p\<rparr>) w = (r, fl', w')"
      by (simp add: DownloadFile_def Let_def)
    from fetch_no_faults [OF nf this] show ?thesis .
  next
    case (Some content)
    let ?f2 = "fl\<lparr>LocalPath := ?p, BytesDownloaded := of_nat (length content)\<rparr>"
    show ?thesis
    proof (cases "0 <s Size fl \<and> Size fl \<le>s of_nat (length content)")
      case True
      with Inr Some run nf show ?thesis by (simp add: DownloadFile_def Let_def)
    next
      case False
      with Inr Some run have "fetch e ?p (of_nat (length content)) ?f2 w = (r, fl', w')"
        by (auto simp: DownloadFile_def Let_def)
      from fetch_no_faults [OF nf this] show ?thesis .
    qed
  qed
qed

lemma Save_no_faults:
  assumes nf: "write_faults w = None" and sv: "Save e s w = (r, s', w')"
  shows "write_faults w' = None"
proof (cases "\<exists>path data. statePath e = Inr path \<and> mkdir_err e (Dir e path) = None \<and>
          marshal e (s\<lparr>UpdatedAt := clock w\<rparr>) = Inr data \<and> open_err e path = None")
  case True
  then obtain path data where p: "statePath e = Inr path" "mkdir_err e (Dir e path) = None"
    "marshal e (s\<lparr>UpdatedAt := clock w\<rparr>) = Inr data" "open_err e path = None" by blast
  let ?w0 = "w\<lparr>files := (files w)(path := Some [])\<rparr>"
  obtain r1 w1 where wr: "Write path data ?w0 = (r1, w1)" by (cases "Write path data ?w0")
  from nf have "write_faults ?w0 = None" by simp
  note w1 = Write_no_faults [OF this wr]
  from sv p wr have "w' = w1" by (simp add: Save_def Let_def WriteFile_def)
  with w1 show ?thesis by simp
next
  case False
  with sv have "w' = w"
    by (auto simp: Save_def Let_def WriteFile_def split: sum.splits option.splits)
  with nf show ?thesis by simp
qed

lemma uploadZipEntry_faults:
  assumes "uploadZipEntry e f w = (r, w')"
  shows "write_faults w' = write_faults w"
  using assms
  by (auto simp: uploadZipEntry_def uploadAsset_def Let_def
           split: sum.splits option.splits if_splits)

lemma entry_step_no_faults:
  assumes nf: "write_faults w = None"
    and st: "entry_step e zipPath f (job, us, w) = (r, job', us', w')"
  shows "write_faults w' = None"
proof -
  obtain c w1 where c: "ctx_done w = (c, w1)" by (cases "ctx_done w")
  from ctx_done_no_faults [OF nf c] have nf1: "write_faults w1 = None" .
  let ?key = "zipPath @ '':'' @ entry_name f"
  show ?thesis
  proof (cases c)
    case True
    with st c have "w' = w1" by (simp add: entry_step_def)
    with nf1 show ?thesis by simp
  next
    case live: False
    show ?thesis
    proof (cases "?key \<in> us")
      case True
      with st c live have "w' = w1" by (simp add: entry_step_def Let_def)
      with nf1 show ?thesis by simp
    next
      case new: False
      show ?thesis
      proof (cases "UploadState job")
        case None
        with st c live new have "w' = w1" by (simp add: entry_step_def Let_def)
        with nf1 show ?thesis by simp
      next
        case (Some u)
        let ?w2 = "w1\<lparr>progress_log := progress_log w1 @
                     [(''uploading'', UploadedPhotos u, TotalPhotos u, entry_name f)]\<rparr>"
        obtain r3 w3 where up: "uploadZipEntry e f ?w2 = (r3, w3)"
          by (cases "uploadZipEntry e f ?w2")
        from uploadZipEntry_faults [OF up] nf1 have nf3: "write_faults w3 = None" by simp
        show ?thesis
        proof (cases r3)
          case failed: (Some err)
          with st c live new Some up have "w' = w3" by (simp add: entry_step_def Let_def)
          with nf3 show ?thesis by simp
        next
          case None
          let ?job1 = "job\<lparr>UploadState := Some (u\<lparr>UploadedFiles := UploadedFiles u @ [?key],
                                                     UploadedPhotos := UploadedPhotos u + 1\<rparr>)\<rparr>"
          obtain r4 job4 w4 where sv: "Save e ?job1 w3 = (r4, job4, w4)" by (metis prod_cases3)
          from Save_no_faults [OF nf3 sv] have nf4: "write_faults w4 = None" .
          from st c live new Some up None sv have "w' = w3 \<or> w' = w4"
            by (auto simp: entry_step_def Let_def split: if_splits)
          with nf3 nf4 show ?thesis by auto
        qed
      qed
    qed
  qed
qed

lemma entry_step_result:
  assumes "entry_step e zipPath f (job, us, w) = (r, job', us', w')"
  shows "r = None \<or> r = Some Canceled \<or> (r = Some NilDereference \<and> UploadState job = None)"
  using assms
  by (auto simp: entry_step_def Let_def split: prod.splits if_splits option.splits)

lemma step_rel_Some:
  "step_rel key (job, us) (job', us') \<Longrightarrow> UploadState job \<noteq> None \<Longrightarrow> UploadState job' \<noteq> None"
  by (auto simp: step_rel_def split: option.splits)

lemma upload_entries_frame:
  "upload_entries e zipPath fs (job, us, w) = (r, job', us', w') \<Longrightarrow>
   UploadState job \<noteq> None \<Longrightarrow>
   (r = None \<or> r = Some Canceled) \<and> (write_faults w = None \<longrightarrow> write_faults w' = None)"
proof (induction fs arbitrary: job us w)
  case Nil
  then show ?case by simp
next
  case (Cons f fs)
  obtain r1 job1 us1 w1 where st: "entry_step e zipPath f (job, us, w) = (r1, job1, us1, w1)"
    by (metis prod_cases4)
  from entry_step_result [OF st] Cons.prems(2) have r1: "r1 = None \<or> r1 = Some Canceled" by auto
  from step_rel_Some [OF entry_step_rel [OF st] Cons.prems(2)] have u1: "UploadState job1 \<noteq> None" .
  have nf1: "write_faults w = None \<longrightarrow> write_faults w1 = None"
    using entry_step_no_faults [OF _ st] by blast
  show ?case
  proof (cases r1)
    case None
    with Cons.prems st have "upload_entries e zipPath fs (job1, us1, w1) = (r, job', us', w')"
      by simp
    from Cons.IH [OF this u1] nf1 show ?thesis by auto
  next
    case (Some err)
    with Cons.prems st have "r = r1" "w' = w1" by simp_all
    with r1 nf1 show ?thesis by auto
  qed
qed

lemma ledger_grows_Some:
  "ledger_grows (job, us) (job', us') added \<Longrightarrow> UploadState job \<noteq> None \<Longrightarrow>
   UploadState job' \<noteq> None"
  by (auto simp: ledger_grows_def split: option.splits)

lemma processZipFile_frame:
  assumes run: "processZipFile e zipPath (job, us, w) = (r, job', us', w')"
    and led: "UploadState job \<noteq> None"
  shows "(r = None \<or> r = Some Canceled \<or> (\<exists>e0. r = Some (Wrapped ''failed to open zip'' e0))) \<and>
         (write_faults w = None \<longrightarrow> write_faults w' = None)"
proof (cases "OpenReader e w zipPath")
  case (Inl err)
  with run show ?thesis by (auto simp: processZipFile_def)
next
  case (Inr entries)
  from led obtain u where u: "UploadState job = Some u" by auto
  let ?job1 = "job\<lparr>UploadState := Some (u\<lparr>TotalPhotos := TotalPhotos u + of_nat (length (photoFiles e entries))\<rparr>)\<rparr>"
  from run Inr u have "upload_entries e zipPath (photoFiles e entries) (?job1, us, w) = (r, job', us', w')"
    by (simp add: processZipFile_def)
  from upload_entries_frame [OF this] show ?thesis by auto
qed

lemma import_files_frame:
  "import_files e fs (job, us, w) = (r, job', us', w') \<Longrightarrow> UploadState job \<noteq> None \<Longrightarrow>
   (r = None \<or> r = Some Canceled \<or> (\<exists>e0. r = Some (Wrapped ''failed to open zip'' e0))) \<and>
   (write_faults w = None \<longrightarrow> write_faults w' = None)"
proof (induction fs arbitrary: job us w)
  case Nil
  then show ?case by simp
next
  case (Cons fl fs)
  show ?case
  proof (cases "is_archive e fl")
    case False
    with Cons.prems have "import_files e fs (job, us, w) = (r, job', us', w')"
      by (simp add: import_files_Cons del: import_files.simps)
    from Cons.IH [OF this Cons.prems(2)] show ?thesis .
  next
    case True
    obtain r1 job1 us1 w1 where st: "processZipFile e (LocalPath fl) (job, us, w) = (r1, job1, us1, w1)"
      by (metis prod_cases4)
    note fr = processZipFile_frame [OF st Cons.prems(2)]
    from processZipFile_grows [OF st] Cons.prems(2) have u1: "UploadState job1 \<noteq> None"
      using ledger_grows_Some by blast
    show ?thesis
    proof (cases r1)
      case None
      with Cons.prems st True have "import_files e fs (job1, us1, w1) = (r, job', us', w')"
        by (simp add: import_files_Cons del: import_files.simps)
      from Cons.IH [OF this u1] fr show ?thesis by auto
    next
      case (Some err)
      with Cons.prems st True have "r = r1" "w' = w1"
        by (simp_all add: import_files_Cons del: import_files.simps)
      with fr show ?thesis by auto
    qed
  qed
qed

lemma ImportFiles_frame:
  assumes "ImportFiles e job w = (r, job', w')"
  shows "(r = None \<or> r = Some Canceled \<or> (\<exists>e0. r = Some (Wrapped ''failed to open zip'' e0))) \<and>
         (write_faults w = None \<longrightarrow> write_faults w' = None)"
proof -
  let ?job1 = "job\<lparr>UploadState := Some (init_upload job)\<rparr>"
  obtain us' where run: "import_files e (Files job) (?job1, set (UploadedFiles (init_upload job)), w) = (r, job', us', w')"
    using assms by (auto simp: ImportFiles_def Let_def split: prod.splits)
  have "UploadState ?job1 \<noteq> None" by simp
  from import_files_frame [OF run this] show ?thesis .
qed

subsection \<open>The coordinators\<close>

lemma gui_download_step_facts:
  assumes st: "gui_download_step e i (job, w) = (r, job', w')"
  shows "Status job' = Status job"
    and "r = None \<Longrightarrow> LastError job' = LastError job"
    and "r = Some err \<Longrightarrow> LastError job' = Error err"
    and "r = Some err \<Longrightarrow> disk_ok e \<Longrightarrow> write_faults w = None \<Longrightarrow> persisted e job' w'"
    and "write_faults w = None \<Longrightarrow> write_faults w' = None"
proof -
  let ?fl = "Files job ! i"
  let ?w1 = "w\<lparr>progress_log := progress_log w @
               [(''downloading'', of_nat i, of_nat (length (Files job)), Name ?fl)]\<rparr>"
  obtain r2 file1 w2 where dl: "DownloadFile e ?fl ?w1 = (r2, file1, w2)" by (metis prod_cases3)
  have nf2: "write_faults w = None \<Longrightarrow> write_faults w2 = None"
    using DownloadFile_no_faults [OF _ dl] by simp
  let ?jf = "\<lambda>err. job\<lparr>Files := (Files job)[i := file1], LastError := Error err\<rparr>"
  let ?js = "job\<lparr>Files := (Files job)[i := file1\<lparr>Downloaded := True\<rparr>]\<rparr>"
  have all: "Status job' = Status job \<and>
       (r = None \<longrightarrow> LastError job' = LastError job) \<and>
       (\<forall>err. r = Some err \<longrightarrow> LastError job' = Error err \<and>
          (disk_ok e \<and> write_faults w = None \<longrightarrow> persisted e job' w')) \<and>
       (write_faults w = None \<longrightarrow> write_faults w' = None)"
  proof (cases "Downloaded ?fl")
    case True
    with st show ?thesis by (simp add: gui_download_step_def Let_def)
  next
    case False
    show ?thesis
    proof (cases r2)
      case None
      obtain r3 job3 w3 where sv: "Save e ?js w2 = (r3, job3, w3)" by (metis prod_cases3)
      from st False dl None sv have res: "r = None" "job' = job3" "w' = w3"
        by (simp_all add: gui_download_step_def Let_def)
      from Save_fields [OF sv] have "Status job3 = Status job" "LastError job3 = LastError job"
        by simp_all
      moreover have "write_faults w = None \<longrightarrow> write_faults w3 = None"
        using nf2 Save_no_faults [OF _ sv] by blast
      ultimately show ?thesis using res by simp
    next
      case (Some err2)
      obtain r3 job3 w3 where sv: "Save e (?jf err2) w2 = (r3, job3, w3)" by (metis prod_cases3)
      from st False dl Some sv have res: "r = Some err2" "job' = job3" "w' = w3"
        by (simp_all add: gui_download_step_def Let_def)
      from Save_fields [OF sv] have f: "Status job3 = Status job" "LastError job3 = Error err2"
        by simp_all
      have p: "disk_ok e \<and> write_faults w = None \<longrightarrow> persisted e job3 w3"
        using nf2 Save_persisted [OF _ _ sv] by blast
      have "write_faults w = None \<longrightarrow> write_faults w3 = None"
        using nf2 Save_no_faults [OF _ sv] by blast
      with f p res show ?thesis by simp
    qed
  qed
  from all show "Status job' = Status job" by simp
  from all show "r = None \<Longrightarrow> LastError job' = LastError job" by simp
  from all show "r = Some err \<Longrightarrow> LastError job' = Error err" by simp
  from all show "r = Some err \<Longrightarrow> disk_ok e \<Longrightarrow> write_faults w = None \<Longrightarrow> persisted e job' w'"
    by simp
  from all show "write_faults w = None \<Longrightarrow> write_faults w' = None" by simp
qed

lemma gui_downloads_facts:
  "gui_downloads e is (job, w) = (r, job', w') \<Longrightarrow>
   Status job' = Status job \<and>
   (r = None \<longrightarrow> LastError job' = LastError job) \<and>
   (\<forall>err. r = Some err \<longrightarrow> LastError job' = Error err \<and>
      (disk_ok e \<and> write_faults w = None \<longrightarrow> persisted e job' w')) \<and>
   (write_faults w = None \<longrightarrow> write_faults w' = None)"
proof (induction "is" arbitrary: job w)
  case Nil
  then show ?case by simp
next
  case (Cons i rest)
  obtain r1 job1 w1 where st: "gui_download_step e i (job, w) = (r1, job1, w1)"
    by (metis prod_cases3)
  note f = gui_download_step_facts [OF st]
  show ?case
  proof (cases r1)
    case None
    with Cons.prems st have "gui_downloads e rest (job1, w1) = (r, job', w')" by simp
    from Cons.IH [OF this] f(1) f(2) [OF None] f(5) show ?thesis by auto
  next
    case (Some err1)
    with Cons.prems st have res: "r = Some err1" "job' = job1" "w' = w1" by simp_all
    with f(1) f(3) [OF Some] f(4) [OF Some] f(5) show ?thesis by auto
  qed
qed

lemma gui_runImport_abort:
  assumes run: "gui_runImport e job w = (Some err, job', w')"
  shows "LastError job' = Error err \<and>
         (Status job' = Status job \<or> Status job' = ''uploading'') \<and>
         (disk_ok e \<and> write_faults w = None \<longrightarrow> persisted e job' w')"
proof -
  obtain r1 job1 w1 where dl: "gui_downloads e [0..<length (Files job)] (job, w) = (r1, job1, w1)"
    by (metis prod_cases3)
  note d = gui_downloads_facts [OF dl]
  show ?thesis
  proof (cases r1)
    case (Some err1)
    with run dl have "err = err1" "job' = job1" "w' = w1" by (simp_all add: gui_runImport_def)
    with d Some show ?thesis by simp
  next
    case None
    obtain r2 job2 w2 where sv: "Save e (job1\<lparr>Status := ''uploading''\<rparr>) w1 = (r2, job2, w2)"
      by (metis prod_cases3)
    obtain r3 job3 w3 where im: "ImportFiles e job2 w2 = (r3, job3, w3)" by (metis prod_cases3)
    have nf3: "write_faults w = None \<longrightarrow> write_faults w3 = None"
      using d Save_no_faults [OF _ sv] ImportFiles_frame [OF im] by blast
    show ?thesis
    proof (cases r3)
      case ok: None
      with run dl None sv im show ?thesis
        by (simp add: gui_runImport_def split: prod.splits)
    next
      case (Some err3)
      obtain r4 job4 w4 where sv2: "Save e (job3\<lparr>LastError := Error err3\<rparr>) w3 = (r4, job4, w4)"
        by (metis prod_cases3)
      from run dl None sv im Some sv2 have res: "err = err3" "job' = job4" "w' = w4"
        by (simp_all add: gui_runImport_def)
      from Save_fields [OF sv2] have f4: "LastError job4 = Error err3" "Status job4 = Status job3"
        by simp_all
      from ImportFiles_ledger [OF im] have "Status job3 = Status job2" by simp
      moreover from Save_fields [OF sv] have "Status job2 = ''uploading''" by simp
      ultimately have s4: "Status job4 = ''uploading''" using f4 by simp
      have "disk_ok e \<and> write_faults w = None \<longrightarrow> persisted e job4 w4"
        using nf3 Save_persisted [OF _ _ sv2] by blast
      with f4 s4 res show ?thesis by simp
    qed
  qed
qed

lemma cli_download_step_facts:
  assumes st: "cli_download_step e i (job, w) = (r, job', w')"
  shows "Status job' = Status job \<and> LastError job' = LastError job \<and>
         (r = None \<or> r = Some Canceled \<or> (\<exists>e0. r = Some (Wrapped ''download failed'' e0))) \<and>
         (\<forall>e0. r = Some (Wrapped ''download failed'' e0) \<and> disk_ok e \<and> write_faults w = None
               \<longrightarrow> persisted e job' w') \<and>
         (write_faults w = None \<longrightarrow> write_faults w' = None)"
proof -
  obtain c w1 where c: "ctx_done w = (c, w1)" by (cases "ctx_done w")
  have nf1: "write_faults w = None \<Longrightarrow> write_faults w1 = None"
    using ctx_done_no_faults [OF _ c] by simp
  let ?fl = "Files job ! i"
  show ?thesis
  proof (cases "c \<or> Downloaded ?fl")
    case True
    with st c have "job' = job" "w' = w1" "r = None \<or> r = Some Canceled"
      by (auto simp: cli_download_step_def Let_def split: if_splits)
    with nf1 show ?thesis by auto
  next
    case False
    obtain r2 file1 w2 where dl: "DownloadFile e ?fl w1 = (r2, file1, w2)" by (metis prod_cases3)
    have nf2: "write_faults w = None \<Longrightarrow> write_faults w2 = None"
      using nf1 DownloadFile_no_faults [OF _ dl] by simp
    show ?thesis
    proof (cases r2)
      case None
      let ?js = "job\<lparr>Files := (Files job)[i := file1\<lparr>Downloaded := True\<rparr>]\<rparr>"
      obtain r3 job3 w3 where sv: "Save e ?js w2 = (r3, job3, w3)" by (metis prod_cases3)
      from st c False dl None sv have res: "r = None" "job' = job3" "w' = w3"
        by (simp_all add: cli_download_step_def Let_def)
      from Save_fields [OF sv] have "Status job3 = Status job" "LastError job3 = LastError job"
        by simp_all
      moreover have "write_faults w = None \<longrightarrow> write_faults w3 = None"
        using nf2 Save_no_faults [OF _ sv] by blast
      ultimately show ?thesis using res by simp
    next
      case (Some err2)
      let ?jf = "job\<lparr>Files := (Files job)[i := file1]\<rparr>"
      obtain r3 job3 w3 where sv: "Save e ?jf w2 = (r3, job3, w3)" by (metis prod_cases3)
      from st c False dl Some sv have res: "r = Some (Wrapped ''download failed'' err2)"
        "job' = job3" "w' = w3"
        by (simp_all add: cli_download_step_def Let_def)
      from Save_fields [OF sv] have f: "Status job3 = Status job" "LastError job3 = LastError job"
        by simp_all
      have p: "disk_ok e \<and> write_faults w = None \<longrightarrow> persisted e job3 w3"
        using nf2 Save_persisted [OF _ _ sv] by blast
      have "write_faults w = None \<longrightarrow> write_faults w3 = None"
        using nf2 Save_no_faults [OF _ sv] by blast
      with f p res show ?thesis by simp
    qed
  qed
qed

lemma cli_downloads_facts:
  "cli_downloads e is (job, w) = (r, job', w') \<Longrightarrow>
   Status job' = Status job \<and> LastError job' = LastError job \<and>
   (r = None \<or> r = Some Canceled \<or> (\<exists>e0. r = Some (Wrapped ''download failed'' e0))) \<and>
   (\<forall>e0. r = Some (Wrapped ''download failed'' e0) \<and> disk_ok e \<and> write_faults w = None
         \<longrightarrow> persisted e job' w') \<and>
   (write_faults w = None \<longrightarrow> write_faults w' = None)"
proof (induction "is" arbitrary: job w)
  case Nil
  then show ?case by simp
next
  case (Cons i rest)
  obtain r1 job1 w1 where st: "cli_download_step e i (job, w) = (r1, job1, w1)"
    by (metis prod_cases3)
  note f = cli_download_step_facts [OF st]
  show ?case
  proof (cases r1)
    case None
    with Cons.prems st have "cli_downloads e rest (job1, w1) = (r, job', w')" by simp
    from Cons.IH [OF this] f show ?thesis by auto
  next
    case (Some err1)
    with Cons.prems st have res: "r = r1" "job' = job1" "w' = w1" by simp_all
    with f show ?thesis by auto
  qed
qed

lemma cli_runImport_abort:
  assumes run: "cli_runImport e job w = (Some err, job', w')"
  shows "LastError job' = LastError job \<and>
         (Status job' = ''downloading'' \<or> Status job' = ''uploading'') \<and>
         (\<forall>e0. err = Wrapped ''download failed'' e0 \<and> disk_ok e \<and> write_faults w = None
               \<longrightarrow> Status job' = ''downloading'' \<and> persisted e job' w') \<and>
         (\<forall>e0. err = Wrapped ''upload failed'' e0 \<longrightarrow> Status job' = ''uploading'')"
proof -
  obtain r0 job0 w0 where sv0: "Save e (job\<lparr>Status := ''downloading''\<rparr>) w = (r0, job0, w0)"
    by (metis prod_cases3)
  from Save_fields [OF sv0] have j0: "Status job0 = ''downloading''" "LastError job0 = LastError job"
    "Files job0 = Files job"
    by simp_all
  have nf0: "write_faults w = None \<longrightarrow> write_faults w0 = None"
    using Save_no_faults [OF _ sv0] by blast
  obtain r1 job1 w1 where dl: "cli_downloads e [0..<length (Files job0)] (job0, w0) = (r1, job1, w1)"
    by (metis prod_cases3)
  note d = cli_downloads_facts [OF dl]
  show ?thesis
  proof (cases r1)
    case (Some err1)
    with run sv0 dl have "err = err1" "job' = job1" "w' = w1"
      by (simp_all add: cli_runImport_def)
    with d Some j0 nf0 show ?thesis by auto
  next
    case None
    obtain r2 job2 w2 where sv: "Save e (job1\<lparr>Status := ''uploading''\<rparr>) w1 = (r2, job2, w2)"
      by (metis prod_cases3)
    obtain r3 job3 w3 where im: "ImportFiles e job2 w2 = (r3, job3, w3)" by (metis prod_cases3)
    show ?thesis
    proof (cases r3)
      case ok: None
      with run sv0 dl None sv im show ?thesis
        by (simp add: cli_runImport_def split: prod.splits)
    next
      case (Some err3)
      from run sv0 dl None sv im Some have res: "err = Wrapped ''upload failed'' err3" "job' = job3"
        by (simp_all add: cli_runImport_def)
      from ImportFiles_ledger [OF im] have "Status job3 = Status job2" "LastError job3 = LastError job2"
        by simp_all
      moreover from Save_fields [OF sv] have "Status job2 = ''uploading''" "LastError job2 = LastError job1"
        by simp_all
      ultimately show ?thesis using d j0 res by simp
    qed
  qed
qed

lemma entry_failure_absorbed:
  assumes c: "ctx_done w = (False, w1)"
    and new: "zipPath @ '':'' @ entry_name f \<notin> us"
    and led: "UploadState job = Some u"
    and up: "uploadZipEntry e f
               (w1\<lparr>progress_log := progress_log w1 @
                    [(''uploading'', UploadedPhotos u, TotalPhotos u, entry_name f)]\<rparr>)
             = (Some err, w3)"
  shows "entry_step e zipPath f (job, us, w) = (None, job, us, w3)"
  using assms by (simp add: entry_step_def Let_def)

subsection \<open>The record on disk during an upload\<close>

lemma persisted_files: "files w' = files w \<Longrightarrow> persisted e s w' = persisted e s w"
  by (simp add: persisted_def split: sum.splits)

lemma uploadZipEntry_files:
  assumes "uploadZipEntry e f w = (r, w')"
  shows "files w' = files w"
  using assms
  by (auto simp: uploadZipEntry_def uploadAsset_def Let_def
           split: sum.splits option.splits if_splits)

text \<open>An iteration of the entry loop leaves the files alone or ends with a \<open>Save\<close>.\<close>

lemma entry_step_files:
  assumes st: "entry_step e zipPath f (job, us, w) = (r, job', us', w')"
  shows "files w' = files w \<or>
         (\<exists>s w0 r0. files w0 = files w \<and> write_faults w0 = write_faults w \<and>
            Save e s w0 = (r0, job', w'))"
proof -
  obtain c w1 where c: "ctx_done w = (c, w1)" by (cases "ctx_done w")
  from ctx_done_fields [OF c] have f1: "files w1 = files w" "write_faults w1 = write_faults w"
    by simp_all
  let ?key = "zipPath @ '':'' @ entry_name f"
  show ?thesis
  proof (cases "c \<or> ?key \<in> us \<or> UploadState job = None")
    case True
    with st c have "w' = w1"
      by (auto simp: entry_step_def Let_def split: if_splits option.splits)
    with f1 show ?thesis by simp
  next
    case False
    then obtain u where u: "UploadState job = Some u" and live: "\<not> c" and new: "?key \<notin> us"
      by auto
    let ?w2 = "w1\<lparr>progress_log := progress_log w1 @
                 [(''uploading'', UploadedPhotos u, TotalPhotos u, entry_name f)]\<rparr>"
    obtain r3 w3 where up: "uploadZipEntry e f ?w2 = (r3, w3)"
      by (cases "uploadZipEntry e f ?w2")
    from uploadZipEntry_files [OF up] uploadZipEntry_faults [OF up] f1
    have f3: "files w3 = files w" "write_faults w3 = write_faults w" by simp_all
    show ?thesis
    proof (cases r3)
      case (Some err)
      with st c live new u up have "w' = w3" by (simp add: entry_step_def Let_def)
      with f3 show ?thesis by simp
    next
      case None
      let ?job1 = "job\<lparr>UploadState := Some (u\<lparr>UploadedFiles := UploadedFiles u @ [?key],
                                                 UploadedPhotos := UploadedPhotos u + 1\<rparr>)\<rparr>"
      obtain r4 job4 w4 where sv: "Save e ?job1 w3 = (r4, job4, w4)" by (metis prod_cases3)
      from st c live new u up None sv have "w' = w3 \<or> (job' = job4 \<and> w' = w4)"
        by (auto simp: entry_step_def Let_def split: if_splits)
      with f3 sv show ?thesis by blast
    qed
  qed
qed

lemma entry_step_recorded:
  assumes st: "entry_step e zipPath f (job, us, w) = (r, job', us', w')"
    and ok: "disk_ok e" and nf: "write_faults w = None"
    and rec: "recorded e w (Status job) (LastError job)"
  shows "recorded e w' (Status job') (LastError job')"
proof -
  from entry_step_rel [OF st] have same: "Status job' = Status job" "LastError job' = LastError job"
    by (auto simp: step_rel_def)
  from entry_step_files [OF st] show ?thesis
  proof
    assume fw: "files w' = files w"
    from rec obtain j where j: "persisted e j w" "Status j = Status job" "LastError j = LastError job"
      by (auto simp: recorded_def)
    from j(1) persisted_files [OF fw] have "persisted e j w'" by simp
    with j same show ?thesis unfolding recorded_def by auto
  next
    assume "\<exists>s w0 r0. files w0 = files w \<and> write_faults w0 = write_faults w \<and>
            Save e s w0 = (r0, job', w')"
    then obtain s w0 r0 where "write_faults w0 = write_faults w" and sv: "Save e s w0 = (r0, job', w')"
      by blast
    with nf have "write_faults w0 = None" by simp
    from Save_persisted [OF ok this sv] have "persisted e job' w'" by simp
    then show ?thesis by (auto simp: recorded_def)
  qed
qed

lemma upload_entries_recorded:
  "upload_entries e zipPath fs (job, us, w) = (r, job', us', w') \<Longrightarrow>
   disk_ok e \<Longrightarrow> write_faults w = None \<Longrightarrow> recorded e w (Status job) (LastError job) \<Longrightarrow>
   recorded e w' (Status job') (LastError job')"
proof (induction fs arbitrary: job us w)
  case Nil
  then show ?case by simp
next
  case (Cons f fs)
  obtain r1 job1 us1 w1 where st: "entry_step e zipPath f (job, us, w) = (r1, job1, us1, w1)"
    by (metis prod_cases4)
  from entry_step_recorded [OF st Cons.prems(2,3,4)]
  have rec1: "recorded e w1 (Status job1) (LastError job1)" .
  from entry_step_no_faults [OF Cons.prems(3) st] have nf1: "write_faults w1 = None" .
  show ?case
  proof (cases r1)
    case None
    with Cons.prems(1) st have "upload_entries e zipPath fs (job1, us1, w1) = (r, job', us', w')"
      by simp
    from Cons.IH [OF this Cons.prems(2) nf1 rec1] show ?thesis .
  next
    case (Some err)
    with Cons.prems(1) st have "job' = job1" "w' = w1" by simp_all
    with rec1 show ?thesis by simp
  qed
qed

lemma processZipFile_recorded:
  assumes run: "processZipFile e zipPath (job, us, w) = (r, job', us', w')"
    and ok: "disk_ok e" and nf: "write_faults w = None"
    and rec: "recorded e w (Status job) (LastError job)"
  shows "recorded e w' (Status job') (LastError job')"
proof (cases "OpenReader e w zipPath")
  case (Inl err)
  with run have "job' = job" "w' = w" by (simp_all add: processZipFile_def)
  with rec show ?thesis by simp
next
  case (Inr entries)
  show ?thesis
  proof (cases "UploadState job")
    case None
    with run Inr have "job' = job" "w' = w" by (simp_all add: processZipFile_def)
    with rec show ?thesis by simp
  next
    case (Some u)
    let ?job1 = "job\<lparr>UploadState := Some (u\<lparr>TotalPhotos := TotalPhotos u + of_nat (length (photoFiles e entries))\<rparr>)\<rparr>"
    from run Inr Some
    have ue: "upload_entries e zipPath (photoFiles e entries) (?job1, us, w) = (r, job', us', w')"
      by (simp add: processZipFile_def)
    from rec have "recorded e w (Status ?job1) (LastError ?job1)" by simp
    from upload_entries_recorded [OF ue ok nf this] show ?thesis .
  qed
qed

lemma import_files_recorded:
  "import_files e fs (job, us, w) = (r, job', us', w') \<Longrightarrow>
   disk_ok e \<Longrightarrow> write_faults w = None \<Longrightarrow> UploadState job \<noteq> None \<Longrightarrow>
   recorded e w (Status job) (LastError job) \<Longrightarrow>
   recorded e w' (Status job') (LastError job')"
proof (induction fs arbitrary: job us w)
  case Nil
  then show ?case by simp
next
  case (Cons fl fs)
  show ?case
  proof (cases "is_archive e fl")
    case False
    with Cons.prems(1) have "import_files e fs (job, us, w) = (r, job', us', w')"
      by (simp add: import_files_Cons del: import_files.simps)
    from Cons.IH [OF this Cons.prems(2,3,4,5)] show ?thesis .
  next
    case True
    obtain r1 job1 us1 w1 where st: "processZipFile e (LocalPath fl) (job, us, w) = (r1, job1, us1, w1)"
      by (metis prod_cases4)
    from processZipFile_recorded [OF st Cons.prems(2,3,5)]
    have rec1: "recorded e w1 (Status job1) (LastError job1)" .
    from processZipFile_frame [OF st Cons.prems(4)] Cons.prems(3)
    have nf1: "write_faults w1 = None" by simp
    from processZipFile_grows [OF st] Cons.prems(4) have u1: "UploadState job1 \<noteq> None"
      using ledger_grows_Some by blast
    show ?thesis
    proof (cases r1)
      case None
      with Cons.prems(1) st True have "import_files e fs (job1, us1, w1) = (r, job', us', w')"
        by (simp add: import_files_Cons del: import_files.simps)
      from Cons.IH [OF this Cons.prems(2) nf1 u1 rec1] show ?thesis .
    next
      case (Some err)
      with Cons.prems(1) st True have "job' = job1" "w' = w1"
        by (simp_all add: import_files_Cons del: import_files.simps)
      with rec1 show ?thesis by simp
    qed
  qed
qed

lemma ImportFiles_recorded:
  assumes run: "ImportFiles e job w = (r, job', w')"
    and ok: "disk_ok e" and nf: "write_faults w = None"
    and rec: "recorded e w (Status job) (LastError job)"
  shows "recorded e w' (Status job') (LastError job')"
proof -
  let ?job1 = "job\<lparr>UploadState := Some (init_upload job)\<rparr>"
  obtain us' where im: "import_files e (Files job) (?job1, set (UploadedFiles (init_upload job)), w) = (r, job', us', w')"
    using run by (auto simp: ImportFiles_def Let_def split: prod.splits)
  have u: "UploadState ?job1 \<noteq> None" by simp
  from rec have "recorded e w (Status ?job1) (LastError ?job1)" by simp
  from import_files_recorded [OF im ok nf u this] show ?thesis .
qed


subsection \<open>The coordinators, phase by phase\<close>

lemma cli_download_step_persisted:
  assumes st: "cli_download_step e i (job, w) = (r, job', w')"
    and ok: "disk_ok e" and nf: "write_faults w = None" and p: "persisted e job w"
  shows "persisted e job' w'"
proof -
  obtain c w1 where c: "ctx_done w = (c, w1)" by (cases "ctx_done w")
  from ctx_done_fields [OF c] have f1: "files w1 = files w" by simp
  from ctx_done_no_faults [OF nf c] have nf1: "write_faults w1 = None" .
  let ?fl = "Files job ! i"
  show ?thesis
  proof (cases "c \<or> Downloaded ?fl")
    case True
    with st c have "job' = job" "w' = w1"
      by (auto simp: cli_download_step_def Let_def split: if_splits)
    with p persisted_files [OF f1] show ?thesis by simp
  next
    case False
    obtain r2 file1 w2 where dl: "DownloadFile e ?fl w1 = (r2, file1, w2)" by (metis prod_cases3)
    from DownloadFile_no_faults [OF nf1 dl] have nf2: "write_faults w2 = None" .
    show ?thesis
    proof (cases r2)
      case None
      let ?js = "job\<lparr>Files := (Files job)[i := file1\<lparr>Downloaded := True\<rparr>]\<rparr>"
      obtain r3 job3 w3 where sv: "Save e ?js w2 = (r3, job3, w3)" by (metis prod_cases3)
      from st c False dl None sv have "job' = job3" "w' = w3"
        by (simp_all add: cli_download_step_def Let_def)
      with Save_persisted [OF ok nf2 sv] show ?thesis by simp
    next
      case (Some err2)
      let ?jf = "job\<lparr>Files := (Files job)[i := file1]\<rparr>"
      obtain r3 job3 w3 where sv: "Save e ?jf w2 = (r3, job3, w3)" by (metis prod_cases3)
      from st c False dl Some sv have "job' = job3" "w' = w3"
        by (simp_all add: cli_download_step_def Let_def)
      with Save_persisted [OF ok nf2 sv] show ?thesis by simp
    qed
  qed
qed

lemma cli_downloads_persisted:
  "cli_downloads e is (job, w) = (r, job', w') \<Longrightarrow> disk_ok e \<Longrightarrow> write_faults w = None \<Longrightarrow>
   persisted e job w \<Longrightarrow> persisted e job' w'"
proof (induction "is" arbitrary: job w)
  case Nil
  then show ?case by simp
next
  case (Cons i rest)
  obtain r1 job1 w1 where st: "cli_download_step e i (job, w) = (r1, job1, w1)"
    by (metis prod_cases3)
  from cli_download_step_persisted [OF st Cons.prems(2,3,4)] have p1: "persisted e job1 w1" .
  from cli_download_step_facts [OF st] Cons.prems(3) have nf1: "write_faults w1 = None" by simp
  show ?case
  proof (cases r1)
    case None
    with Cons.prems(1) st have "cli_downloads e rest (job1, w1) = (r, job', w')" by simp
    from Cons.IH [OF this Cons.prems(2) nf1 p1] show ?thesis .
  next
    case (Some err1)
    with Cons.prems(1) st have "job' = job1" "w' = w1" by simp_all
    with p1 show ?thesis by simp
  qed
qed

lemma AddFile_Status: "Status (AddFile driveID name sz s) = Status s"
  by (simp add: AddFile_def)

lemma AddFiles_Status: "Status (foldl (\<lambda>s ident. AddFile ident [] 0 s) s ids) = Status s"
  by (induction ids arbitrary: s) (simp_all add: AddFile_Status)

lemma StartImport_Status: "Status (fst (StartImport e ids st uuid url w)) = ''downloading''"
proof -
  let ?s0 = "case st of None \<Rightarrow> New uuid (clock w) | Some s \<Rightarrow> s"
  let ?s2 = "foldl (\<lambda>s ident. AddFile ident [] 0 s) (?s0\<lparr>ServerURL := url, Status := ''downloading''\<rparr>) ids"
  obtain r s3 w1 where sv: "Save e ?s2 w = (r, s3, w1)" by (metis prod_cases3)
  then have "fst (StartImport e ids st uuid url w) = s3" by (simp add: StartImport_def Let_def)
  moreover from Save_fields [OF sv] have "Status s3 = Status ?s2" by simp
  ultimately show ?thesis by (simp add: AddFiles_Status)
qed

lemma gui_download_abort:
  assumes dl: "gui_downloads e [0..<length (Files job)] (job, w) = (Some err, job1, w1)"
  shows "gui_runImport e job w = (Some err, job1, w1) \<and>
         Status job1 = Status job \<and> LastError job1 = Error err \<and>
         (disk_ok e \<and> write_faults w = None \<longrightarrow> persisted e job1 w1)"
proof -
  from dl have "gui_runImport e job w = (Some err, job1, w1)" by (simp add: gui_runImport_def)
  with gui_downloads_facts [OF dl] show ?thesis by simp
qed

lemma gui_upload_abort:
  assumes dl: "gui_downloads e [0..<length (Files job)] (job, w) = (None, job1, w1)"
    and sv: "Save e (job1\<lparr>Status := ''uploading''\<rparr>) w1 = (r1, job2, w2)"
    and im: "ImportFiles e job2 w2 = (Some err, job3, w3)"
  shows "gui_runImport e job w = (Some err, snd (Save e (job3\<lparr>LastError := Error err\<rparr>) w3)) \<and>
         (case Save e (job3\<lparr>LastError := Error err\<rparr>) w3 of
            (r2, job4, w4) \<Rightarrow>
              Status job4 = ''uploading'' \<and> LastError job4 = Error err \<and>
              (disk_ok e \<and> write_faults w = None \<longrightarrow> persisted e job4 w4))"
proof -
  obtain r4 job4 w4 where sv2: "Save e (job3\<lparr>LastError := Error err\<rparr>) w3 = (r4, job4, w4)"
    by (metis prod_cases3)
  from dl sv im sv2 have run: "gui_runImport e job w = (Some err, job4, w4)"
    by (simp add: gui_runImport_def)
  have nf3: "write_faults w = None \<longrightarrow> write_faults w3 = None"
    using gui_downloads_facts [OF dl] Save_no_faults [OF _ sv] ImportFiles_frame [OF im] by blast
  from Save_fields [OF sv2] have f4: "LastError job4 = Error err" "Status job4 = Status job3"
    by simp_all
  from ImportFiles_ledger [OF im] have "Status job3 = Status job2" by simp
  moreover from Save_fields [OF sv] have "Status job2 = ''uploading''" by simp
  ultimately have s4: "Status job4 = ''uploading''" using f4 by simp
  have "disk_ok e \<and> write_faults w = None \<longrightarrow> persisted e job4 w4"
    using nf3 Save_persisted [OF _ _ sv2] by blast
  with run sv2 f4 s4 show ?thesis by simp
qed

lemma StartImport_no_faults:
  assumes "StartImport e ids st uuid url w = (job0, w0)" and "write_faults w = None"
  shows "write_faults w0 = None"
proof -
  let ?s0 = "case st of None \<Rightarrow> New uuid (clock w) | Some s \<Rightarrow> s"
  let ?s2 = "foldl (\<lambda>s ident. AddFile ident [] 0 s) (?s0\<lparr>ServerURL := url, Status := ''downloading''\<rparr>) ids"
  obtain r s3 w1 where sv: "Save e ?s2 w = (r, s3, w1)" by (metis prod_cases3)
  with assms(1) have "w0 = w1" by (simp add: StartImport_def Let_def)
  with Save_no_faults [OF assms(2) sv] show ?thesis by simp
qed

lemma gui_start_abort:
  assumes si: "StartImport e ids st uuid url w = (job0, w0)"
    and dl: "gui_downloads e [0..<length (Files job0)] (job0, w0) = (Some err, job1, w1)"
  shows "gui_runImport e job0 w0 = (Some err, job1, w1) \<and>
         Status job1 = ''downloading'' \<and> LastError job1 = Error err \<and>
         (disk_ok e \<and> write_faults w = None \<longrightarrow> persisted e job1 w1)"
proof -
  from si StartImport_Status [of e ids st uuid url w] have "Status job0 = ''downloading''" by simp
  moreover have "write_faults w = None \<longrightarrow> write_faults w0 = None"
    using StartImport_no_faults [OF si] by blast
  ultimately show ?thesis using gui_download_abort [OF dl] by simp
qed

lemma cli_download_abort:
  assumes sv0: "Save e (job\<lparr>Status := ''downloading''\<rparr>) w = (r0, job0, w0)"
    and dl: "cli_downloads e [0..<length (Files job0)] (job0, w0) = (Some err, job1, w1)"
  shows "cli_runImport e job w = (Some err, job1, w1) \<and>
         Status job1 = ''downloading'' \<and> LastError job1 = LastError job \<and>
         (err = Canceled \<or> (\<exists>e0. err = Wrapped ''download failed'' e0)) \<and>
         (disk_ok e \<and> write_faults w = None \<longrightarrow> persisted e job1 w1)"
proof -
  from sv0 dl have run: "cli_runImport e job w = (Some err, job1, w1)"
    by (simp add: cli_runImport_def)
  from Save_fields [OF sv0] have j0: "Status job0 = ''downloading''" "LastError job0 = LastError job"
    by simp_all
  from cli_downloads_facts [OF dl] j0
  have f: "Status job1 = ''downloading''" "LastError job1 = LastError job"
    "err = Canceled \<or> (\<exists>e0. err = Wrapped ''download failed'' e0)"
    by auto
  have "disk_ok e \<and> write_faults w = None \<longrightarrow> persisted e job1 w1"
  proof
    assume h: "disk_ok e \<and> write_faults w = None"
    then have ok: "disk_ok e" and nf: "write_faults w = None" by simp_all
    from Save_persisted [OF ok nf sv0] have "persisted e job0 w0" "write_faults w0 = None"
      by simp_all
    from cli_downloads_persisted [OF dl ok this(2) this(1)] show "persisted e job1 w1" .
  qed
  with run f show ?thesis by simp
qed

lemma cli_upload_abort:
  assumes sv0: "Save e (job\<lparr>Status := ''downloading''\<rparr>) w = (r0, job0, w0)"
    and dl: "cli_downloads e [0..<length (Files job0)] (job0, w0) = (None, job1, w1)"
    and sv: "Save e (job1\<lparr>Status := ''uploading''\<rparr>) w1 = (r1, job2, w2)"
    and im: "ImportFiles e job2 w2 = (Some err, job3, w3)"
  shows "cli_runImport e job w = (Some (Wrapped ''upload failed'' err), job3, w3) \<and>
         Status job3 = ''uploading'' \<and> LastError job3 = LastError job \<and>
         (disk_ok e \<and> write_faults w = None \<longrightarrow> recorded e w3 ''uploading'' (LastError job))"
proof -
  from sv0 dl sv im have run: "cli_runImport e job w = (Some (Wrapped ''upload failed'' err), job3, w3)"
    by (simp add: cli_runImport_def)
  from Save_fields [OF sv0] have j0: "LastError job0 = LastError job" by simp
  from cli_downloads_facts [OF dl] j0 have j1: "LastError job1 = LastError job" by simp
  from Save_fields [OF sv] j1 have j2: "Status job2 = ''uploading''" "LastError job2 = LastError job"
    by simp_all
  from ImportFiles_ledger [OF im] j2
  have j3: "Status job3 = ''uploading''" "LastError job3 = LastError job" by simp_all
  have "disk_ok e \<and> write_faults w = None \<longrightarrow> recorded e w3 ''uploading'' (LastError job)"
  proof
    assume h: "disk_ok e \<and> write_faults w = None"
    then have ok: "disk_ok e" and nf: "write_faults w = None" by simp_all
    from Save_no_faults [OF nf sv0] have nf0: "write_faults w0 = None" .
    with cli_downloads_facts [OF dl] have nf1: "write_faults w1 = None" by simp
    from Save_persisted [OF ok nf1 sv] have p2: "persisted e job2 w2" and nf2: "write_faults w2 = None"
      by simp_all
    from p2 have "recorded e w2 (Status job2) (LastError job2)" by (auto simp: recorded_def)
    from ImportFiles_recorded [OF im ok nf2 this] j3
    show "recorded e w3 ''uploading'' (LastError job)" by simp
  qed
  with run j3 show ?thesis by simp
qed

subsection \<open>Aborted runs\<close>

text \<open>
  C4, as the code has it. A run that aborts does not end with the status \<open>error\<close>: it
  leaves the job with the status of the phase it was in. The desktop \<open>StartImport\<close> sets the
  status \<open>downloading\<close> before it starts \<open>runImport\<close>, which does not set it again: a
  failed download leaves the status as \<open>runImport\<close> found it, a failed upload leaves
  \<open>uploading\<close>. In both phases the desktop \<open>runImport\<close> sets \<open>LastError\<close> to the
  message of the failure and saves the job, so that the record on disk is that job when
  the disk can be written. The command-line \<open>runImport\<close> leaves \<open>LastError\<close> as it
  was. When its download phase aborts, on a failed download or on cancellation, the job
  has the status \<open>downloading\<close> and is the record on disk. When its upload phase
  aborts, it returns the job and the world as \<open>ImportFiles\<close> left them, without
  another \<open>Save\<close>: the job has the status \<open>uploading\<close>, and the record on disk is
  the one written by the last \<open>Save\<close> before, a job with the status \<open>uploading\<close> and
  the old \<open>LastError\<close>. A failure of one entry's upload ends the iteration without
  error and with the job as it was, and the loop goes on; \<open>ImportFiles\<close> fails only on
  cancellation or on an archive that cannot be opened.
\<close>

theorem abort_keeps_phase_status:
  "(\<forall>ids st uuid url job0 w0 err job1 w1.
      StartImport e ids st uuid url w = (job0, w0) \<and>
      gui_downloads e [0..<length (Files job0)] (job0, w0) = (Some err, job1, w1) \<longrightarrow>
      gui_runImport e job0 w0 = (Some err, job1, w1) \<and>
      Status job1 = ''downloading'' \<and> LastError job1 = Error err \<and>
      (disk_ok e \<and> write_faults w = None \<longrightarrow> persisted e job1 w1)) \<and>
   (\<forall>err job' w'. gui_runImport e job w = (Some err, job', w') \<longrightarrow>
      LastError job' = Error err \<and>
      (Status job' = Status job \<or> Status job' = ''uploading'') \<and>
      (disk_ok e \<and> write_faults w = None \<longrightarrow> persisted e job' w')) \<and>
   (\<forall>err job1 w1.
      gui_downloads e [0..<length (Files job)] (job, w) = (Some err, job1, w1) \<longrightarrow>
      gui_runImport e job w = (Some err, job1, w1) \<and>
      Status job1 = Status job \<and> LastError job1 = Error err \<and>
      (disk_ok e \<and> write_faults w = None \<longrightarrow> persisted e job1 w1)) \<and>
   (\<forall>job1 w1 r1 job2 w2 err job3 w3.
      gui_downloads e [0..<length (Files job)] (job, w) = (None, job1, w1) \<and>
      Save e (job1\<lparr>Status := ''uploading''\<rparr>) w1 = (r1, job2, w2) \<and>
      ImportFiles e job2 w2 = (Some err, job3, w3) \<longrightarrow>
      gui_runImport e job w = (Some err, snd (Save e (job3\<lparr>LastError := Error err\<rparr>) w3)) \<and>
      (case Save e (job3\<lparr>LastError := Error err\<rparr>) w3 of
         (r2, job4, w4) \<Rightarrow>
           Status job4 = ''uploading'' \<and> LastError job4 = Error err \<and>
           (disk_ok e \<and> write_faults w = None \<longrightarrow> persisted e job4 w4))) \<and>
   (\<forall>err job' w'. cli_runImport e job w = (Some err, job', w') \<longrightarrow>
      LastError job' = LastError job \<and>
      (Status job' = ''downloading'' \<or> Status job' = ''uploading'') \<and>
      (\<forall>e0. err = Wrapped ''download failed'' e0 \<and> disk_ok e \<and> write_faults w = None
            \<longrightarrow> Status job' = ''downloading'' \<and> persisted e job' w') \<and>
      (\<forall>e0. err = Wrapped ''upload failed'' e0 \<longrightarrow> Status job' = ''uploading'')) \<and>
   (\<forall>r0 job0 w0 err job1 w1.
      Save e (job\<lparr>Status := ''downloading''\<rparr>) w = (r0, job0, w0) \<and>
      cli_downloads e [0..<length (Files job0)] (job0, w0) = (Some err, job1, w1) \<longrightarrow>
      cli_runImport e job w = (Some err, job1, w1) \<and>
      Status job1 = ''downloading'' \<and> LastError job1 = LastError job \<and>
      (err = Canceled \<or> (\<exists>e0. err = Wrapped ''download failed'' e0)) \<and>
      (disk_ok e \<and> write_faults w = None \<longrightarrow> persisted e job1 w1)) \<and>
   (\<forall>r0 job0 w0 job1 w1 r1 job2 w2 err job3 w3.
      Save e (job\<lparr>Status := ''downloading''\<rparr>) w = (r0, job0, w0) \<and>
      cli_downloads e [0..<length (Files job0)] (job0, w0) = (None, job1, w1) \<and>
      Save e (job1\<lparr>Status := ''uploading''\<rparr>) w1 = (r1, job2, w2) \<and>
      ImportFiles e job2 w2 = (Some err, job3, w3) \<longrightarrow>
      cli_runImport e job w = (Some (Wrapped ''upload failed'' err), job3, w3) \<and>
      Status job3 = ''uploading'' \<and> LastError job3 = LastError job \<and>
      (disk_ok e \<and> write_faults w = None \<longrightarrow> recorded e w3 ''uploading'' (LastError job))) \<and>
   (\<forall>zipPath f us u w1 err w3.
      ctx_done w = (False, w1) \<and> zipPath @ '':'' @ entry_name f \<notin> us \<and>
      UploadState job = Some u \<and>
      uploadZipEntry e f
        (w1\<lparr>progress_log := progress_log w1 @
             [(''uploading'', UploadedPhotos u, TotalPhotos u, entry_name f)]\<rparr>)
        = (Some err, w3) \<longrightarrow>
      entry_step e zipPath f (job, us, w) = (None, job, us, w3)) \<and>
   (\<forall>err job' w'. ImportFiles e job w = (Some err, job', w') \<longrightarrow>
      err = Canceled \<or> (\<exists>e0. err = Wrapped ''failed to open zip'' e0))"
proof -
  have st: "\<forall>ids st uuid url job0 w0 err job1 w1.
        StartImport e ids st uuid url w = (job0, w0) \<and>
        gui_downloads e [0..<length (Files job0)] (job0, w0) = (Some err, job1, w1) \<longrightarrow>
        gui_runImport e job0 w0 = (Some err, job1, w1) \<and>
        Status job1 = ''downloading'' \<and> LastError job1 = Error err \<and>
        (disk_ok e \<and> write_faults w = None \<longrightarrow> persisted e job1 w1)"
  proof (intro allI, rule impI)
    fix ids st uuid url job0 w0 err job1 w1
    assume "StartImport e ids st uuid url w = (job0, w0) \<and>
      gui_downloads e [0..<length (Files job0)] (job0, w0) = (Some err, job1, w1)"
    then have h: "StartImport e ids st uuid url w = (job0, w0)"
      "gui_downloads e [0..<length (Files job0)] (job0, w0) = (Some err, job1, w1)" by simp_all
    from gui_start_abort [OF h]
    show "gui_runImport e job0 w0 = (Some err, job1, w1) \<and>
      Status job1 = ''downloading'' \<and> LastError job1 = Error err \<and>
      (disk_ok e \<and> write_faults w = None \<longrightarrow> persisted e job1 w1)" .
  qed
  have g: "\<forall>err job' w'. gui_runImport e job w = (Some err, job', w') \<longrightarrow>
        LastError job' = Error err \<and>
        (Status job' = Status job \<or> Status job' = ''uploading'') \<and>
        (disk_ok e \<and> write_faults w = None \<longrightarrow> persisted e job' w')"
  proof (intro allI, rule impI)
    fix err job' w'
    assume "gui_runImport e job w = (Some err, job', w')"
    from gui_runImport_abort [OF this]
    show "LastError job' = Error err \<and>
      (Status job' = Status job \<or> Status job' = ''uploading'') \<and>
      (disk_ok e \<and> write_faults w = None \<longrightarrow> persisted e job' w')" .
  qed
  have gd: "\<forall>err job1 w1.
        gui_downloads e [0..<length (Files job)] (job, w) = (Some err, job1, w1) \<longrightarrow>
        gui_runImport e job w = (Some err, job1, w1) \<and>
        Status job1 = Status job \<and> LastError job1 = Error err \<and>
        (disk_ok e \<and> write_faults w = None \<longrightarrow> persisted e job1 w1)"
  proof (intro allI, rule impI)
    fix err job1 w1
    assume "gui_downloads e [0..<length (Files job)] (job, w) = (Some err, job1, w1)"
    from gui_download_abort [OF this]
    show "gui_runImport e job w = (Some err, job1, w1) \<and>
      Status job1 = Status job \<and> LastError job1 = Error err \<and>
      (disk_ok e \<and> write_faults w = None \<longrightarrow> persisted e job1 w1)" .
  qed
  have gu: "\<forall>job1 w1 r1 job2 w2 err job3 w3.
        gui_downloads e [0..<length (Files job)] (job, w) = (None, job1, w1) \<and>
        Save e (job1\<lparr>Status := ''uploading''\<rparr>) w1 = (r1, job2, w2) \<and>
        ImportFiles e job2 w2 = (Some err, job3, w3) \<longrightarrow>
        gui_runImport e job w = (Some err, snd (Save e (job3\<lparr>LastError := Error err\<rparr>) w3)) \<and>
        (case Save e (job3\<lparr>LastError := Error err\<rparr>) w3 of
           (r2, job4, w4) \<Rightarrow>
             Status job4 = ''uploading'' \<and> LastError job4 = Error err \<and>
             (disk_ok e \<and> write_faults w = None \<longrightarrow> persisted e job4 w4))"
  proof (intro allI, rule impI)
    fix job1 w1 r1 job2 w2 err job3 w3
    assume "gui_downloads e [0..<length (Files job)] (job, w) = (None, job1, w1) \<and>
      Save e (job1\<lparr>Status := ''uploading''\<rparr>) w1 = (r1, job2, w2) \<and>
      ImportFiles e job2 w2 = (Some err, job3, w3)"
    then have h: "gui_downloads e [0..<length (Files job)] (job, w) = (None, job1, w1)"
      "Save e (job1\<lparr>Status := ''uploading''\<rparr>) w1 = (r1, job2, w2)"
      "ImportFiles e job2 w2 = (Some err, job3, w3)" by simp_all
    from gui_upload_abort [OF h]
    show "gui_runImport e job w = (Some err, snd (Save e (job3\<lparr>LastError := Error err\<rparr>) w3)) \<and>
      (case Save e (job3\<lparr>LastError := Error err\<rparr>) w3 of
         (r2, job4, w4) \<Rightarrow>
           Status job4 = ''uploading'' \<and> LastError job4 = Error err \<and>
           (disk_ok e \<and> write_faults w = None \<longrightarrow> persisted e job4 w4))" .
  qed
  have c: "\<forall>err job' w'. cli_runImport e job w = (Some err, job', w') \<longrightarrow>
        LastError job' = LastError job \<and>
        (Status job' = ''downloading'' \<or> Status job' = ''uploading'') \<and>
        (\<forall>e0. err = Wrapped ''download failed'' e0 \<and> disk_ok e \<and> write_faults w = None
              \<longrightarrow> Status job' = ''downloading'' \<and> persisted e job' w') \<and>
        (\<forall>e0. err = Wrapped ''upload failed'' e0 \<longrightarrow> Status job' = ''uploading'')"
  proof (intro allI, rule impI)
    fix err job' w'
    assume "cli_runImport e job w = (Some err, job', w')"
    from cli_runImport_abort [OF this]
    show "LastError job' = LastError job \<and>
      (Status job' = ''downloading'' \<or> Status job' = ''uploading'') \<and>
      (\<forall>e0. err = Wrapped ''download failed'' e0 \<and> disk_ok e \<and> write_faults w = None
            \<longrightarrow> Status job' = ''downloading'' \<and> persisted e job' w') \<and>
      (\<forall>e0. err = Wrapped ''upload failed'' e0 \<longrightarrow> Status job' = ''uploading'')" .
  qed
  have cd: "\<forall>r0 job0 w0 err job1 w1.
        Save e (job\<lparr>Status := ''downloading''\<rparr>) w = (r0, job0, w0) \<and>
        cli_downloads e [0..<length (Files job0)] (job0, w0) = (Some err, job1, w1) \<longrightarrow>
        cli_runImport e job w = (Some err, job1, w1) \<and>
        Status job1 = ''downloading'' \<and> LastError job1 = LastError job \<and>
        (err = Canceled \<or> (\<exists>e0. err = Wrapped ''download failed'' e0)) \<and>
        (disk_ok e \<and> write_faults w = None \<longrightarrow> persisted e job1 w1)"
  proof (intro allI, rule impI)
    fix r0 job0 w0 err job1 w1
    assume "Save e (job\<lparr>Status := ''downloading''\<rparr>) w = (r0, job0, w0) \<and>
      cli_downloads e [0..<length (Files job0)] (job0, w0) = (Some err, job1, w1)"
    then have h: "Save e (job\<lparr>Status := ''downloading''\<rparr>) w = (r0, job0, w0)"
      "cli_downloads e [0..<length (Files job0)] (job0, w0) = (Some err, job1, w1)" by simp_all
    from cli_download_abort [OF h]
    show "cli_runImport e job w = (Some err, job1, w1) \<and>
      Status job1 = ''downloading'' \<and> LastError job1 = LastError job \<and>
      (err = Canceled \<or> (\<exists>e0. err = Wrapped ''download failed'' e0)) \<and>
      (disk_ok e \<and> write_faults w = None \<longrightarrow> persisted e job1 w1)" .
  qed
  have cu: "\<forall>r0 job0 w0 job1 w1 r1 job2 w2 err job3 w3.
        Save e (job\<lparr>Status := ''downloading''\<rparr>) w = (r0, job0, w0) \<and>
        cli_downloads e [0..<length (Files job0)] (job0, w0) = (None, job1, w1) \<and>
        Save e (job1\<lparr>Status := ''uploading''\<rparr>) w1 = (r1, job2, w2) \<and>
        ImportFiles e job2 w2 = (Some err, job3, w3) \<longrightarrow>
        cli_runImport e job w = (Some (Wrapped ''upload failed'' err), job3, w3) \<and>
        Status job3 = ''uploading'' \<and> LastError job3 = LastError job \<and>
        (disk_ok e \<and> write_faults w = None \<longrightarrow> recorded e w3 ''uploading'' (LastError job))"
  proof (intro allI, rule impI)
    fix r0 job0 w0 job1 w1 r1 job2 w2 err job3 w3
    assume "Save e (job\<lparr>Status := ''downloading''\<rparr>) w = (r0, job0, w0) \<and>
      cli_downloads e [0..<length (Files job0)] (job0, w0) = (None, job1, w1) \<and>
      Save e (job1\<lparr>Status := ''uploading''\<rparr>) w1 = (r1, job2, w2) \<and>
      ImportFiles e job2 w2 = (Some err, job3, w3)"
    then have h: "Save e (job\<lparr>Status := ''downloading''\<rparr>) w = (r0, job0, w0)"
      "cli_downloads e [0..<length (Files job0)] (job0, w0) = (None, job1, w1)"
      "Save e (job1\<lparr>Status := ''uploading''\<rparr>) w1 = (r1, job2, w2)"
      "ImportFiles e job2 w2 = (Some err, job3, w3)" by simp_all
    from cli_upload_abort [OF h]
    show "cli_runImport e job w = (Some (Wrapped ''upload failed'' err), job3, w3) \<and>
      Status job3 = ''uploading'' \<and> LastError job3 = LastError job \<and>
      (disk_ok e \<and> write_faults w = None \<longrightarrow> recorded e w3 ''uploading'' (LastError job))" .
  qed
  have s: "\<forall>zipPath f us u w1 err w3.
        ctx_done w = (False, w1) \<and> zipPath @ '':'' @ entry_name f \<notin> us \<and>
        UploadState job = Some u \<and>
        uploadZipEntry e f
          (w1\<lparr>progress_log := progress_log w1 @
               [(''uploading'', UploadedPhotos u, TotalPhotos u, entry_name f)]\<rparr>)
          = (Some err, w3) \<longrightarrow>
        entry_step e zipPath f (job, us, w) = (None, job, us, w3)"
  proof (intro allI, rule impI)
    fix zipPath f us u w1 err w3
    assume a: "ctx_done w = (False, w1) \<and> zipPath @ '':'' @ entry_name f \<notin> us \<and>
      UploadState job = Some u \<and>
      uploadZipEntry e f
        (w1\<lparr>progress_log := progress_log w1 @
             [(''uploading'', UploadedPhotos u, TotalPhotos u, entry_name f)]\<rparr>)
        = (Some err, w3)"
    show "entry_step e zipPath f (job, us, w) = (None, job, us, w3)"
      by (rule entry_failure_absorbed [of w w1 zipPath f us job u e err w3])
         (use a in blast)+
  qed
  have i: "\<forall>err job' w'. ImportFiles e job w = (Some err, job', w') \<longrightarrow>
        err = Canceled \<or> (\<exists>e0. err = Wrapped ''failed to open zip'' e0)"
  proof (intro allI, rule impI)
    fix err job' w'
    assume "ImportFiles e job w = (Some err, job', w')"
    from ImportFiles_frame [OF this]
    show "err = Canceled \<or> (\<exists>e0. err = Wrapped ''failed to open zip'' e0)" by auto
  qed
  show ?thesis
    by (rule conjI [OF st conjI [OF g conjI [OF gd conjI [OF gu conjI [OF c conjI [OF cd conjI [OF cu conjI [OF s i]]]]]]]])
qed

theorem abort_keeps_phase_status_witness:
  "StartImport offline_env [''drive-1''] None ''job-1'' ''http://immich.local'' empty_world
     = started_import \<and>
   disk_ok offline_env \<and> disk_ok broken_zip_env \<and>
   write_faults empty_world = None \<and> write_faults (snd started_import) = None \<and>
   write_faults archive_world = None \<and>
   (case gui_runImport offline_env (fst started_import) (snd started_import) of
      (r, job', w') \<Rightarrow>
        r = Some (Wrapped ''failed to download'' (Failure ''connection refused'')) \<and>
        Status job' = ''downloading'' \<and>
        LastError job' = ''failed to download: connection refused'' \<and>
        persisted offline_env job' w') \<and>
   (case gui_runImport broken_zip_env downloaded_job archive_world of
      (r, job', w') \<Rightarrow>
        r = Some (Wrapped ''failed to open zip'' (Failure ''zip: not a valid zip file'')) \<and>
        Status job' = ''uploading'' \<and>
        LastError job' = ''failed to open zip: zip: not a valid zip file'' \<and>
        persisted broken_zip_env job' w') \<and>
   (case cli_runImport offline_env example_job empty_world of
      (r, job', w') \<Rightarrow>
        r = Some (Wrapped ''download failed''
                    (Wrapped ''failed to download'' (Failure ''connection refused''))) \<and>
        Status job' = ''downloading'' \<and> LastError job' = [] \<and>
        persisted offline_env job' w') \<and>
   (case cli_runImport broken_zip_env downloaded_job archive_world of
      (r, job', w') \<Rightarrow>
        r = Some (Wrapped ''upload failed''
                    (Wrapped ''failed to open zip'' (Failure ''zip: not a valid zip file''))) \<and>
        Status job' = ''uploading'' \<and> LastError job' = [] \<and>
        recorded broken_zip_env w' ''uploading'' [] \<and>
        files w' state_json = Some ''{uploading}'') \<and>
   fst (uploadZipEntry rejecting_env (photo_entry ''a.jpg'')
          (archive_world\<lparr>progress_log := [(''uploading'', 0, 2, ''a.jpg'')]\<rparr>))
     = Some (Failure ''upload failed: 500 Internal Server Error'') \<and>
   (case entry_step rejecting_env takeout_zip (photo_entry ''a.jpg'')
           (started_job, {}, archive_world) of
      (r, job', us', w') \<Rightarrow> r = None \<and> job' = started_job \<and> us' = {}) \<and>
   (case ImportFiles broken_zip_env downloaded_job archive_world of
      (r, job', w') \<Rightarrow>
        r = Some (Wrapped ''failed to open zip'' (Failure ''zip: not a valid zip file'')))"
proof -
  let ?E1 = "Wrapped ''failed to download'' (Failure ''connection refused'')"
  let ?E2 = "Wrapped ''failed to open zip'' (Failure ''zip: not a valid zip file'')"
  have ok: "disk_ok offline_env"
    by (simp add: disk_ok_def statePath_def appDataDir_def offline_env_def example_defs)
  have okb: "disk_ok broken_zip_env"
    by (simp add: disk_ok_def statePath_def appDataDir_def broken_zip_env_def example_defs)
  have nf: "write_faults empty_world = None" by (simp add: example_defs)
  have nf1: "write_faults (snd started_import) = None" by code_simp
  have nfa: "write_faults archive_world = None" by (simp add: archive_world_def example_defs)

  let ?j = "fst started_import" and ?w = "snd started_import"
  let ?d1 = "gui_downloads offline_env [0..<length (Files ?j)] (?j, ?w)"
  have ev1: "fst ?d1 = Some ?E1" by code_simp
  then have h1: "?d1 = (Some ?E1, fst (snd ?d1), snd (snd ?d1))" by (simp add: prod_eq_iff)
  have si: "StartImport offline_env [''drive-1''] None ''job-1'' ''http://immich.local'' empty_world
      = (?j, ?w)"
    by (simp add: started_import_def)
  note g0 = abort_keeps_phase_status [where e = offline_env and w = empty_world, THEN conjunct1,
      rule_format, OF conjI, OF si h1]
  from g0 have st: "Status (fst (snd ?d1)) = ''downloading''" by simp
  from g0 ok nf have ps: "persisted offline_env (fst (snd ?d1)) (snd (snd ?d1))" by simp
  note g1 = abort_keeps_phase_status [where e = offline_env and job = ?j and w = ?w, THEN conjunct2,
      THEN conjunct2, THEN conjunct1, rule_format, OF h1]
  from g1 have "gui_runImport offline_env ?j ?w = (Some ?E1, fst (snd ?d1), snd (snd ?d1))"
    and "Status (fst (snd ?d1)) = Status ?j" and "LastError (fst (snd ?d1)) = Error ?E1"
    and "disk_ok offline_env \<and> write_faults ?w = None
         \<longrightarrow> persisted offline_env (fst (snd ?d1)) (snd (snd ?d1))"
    by simp_all
  with st ps have p1: "case gui_runImport offline_env ?j ?w of
      (r, job', w') \<Rightarrow>
        r = Some ?E1 \<and> Status job' = ''downloading'' \<and>
        LastError job' = ''failed to download: connection refused'' \<and>
        persisted offline_env job' w'"
    by (simp add: case_prod_beta)

  let ?d2 = "gui_downloads broken_zip_env [0..<length (Files downloaded_job)]
               (downloaded_job, archive_world)"
  let ?s2 = "Save broken_zip_env ((fst (snd ?d2))\<lparr>Status := ''uploading''\<rparr>) (snd (snd ?d2))"
  let ?i2 = "ImportFiles broken_zip_env (fst (snd ?s2)) (snd (snd ?s2))"
  have ev2: "fst ?d2 = None" by code_simp
  have ev2': "fst ?i2 = Some ?E2" by code_simp
  from ev2 have a2: "?d2 = (None, fst (snd ?d2), snd (snd ?d2))" by (simp add: prod_eq_iff)
  have b2: "?s2 = (fst ?s2, fst (snd ?s2), snd (snd ?s2))" by simp
  from ev2' have c2: "?i2 = (Some ?E2, fst (snd ?i2), snd (snd ?i2))" by (simp add: prod_eq_iff)
  note g2 = abort_keeps_phase_status [where e = broken_zip_env and job = downloaded_job and w = archive_world,
      THEN conjunct2, THEN conjunct2, THEN conjunct2, THEN conjunct1, rule_format,
      OF conjI, OF a2 conjI, OF b2 c2]
  obtain r4 j4 w4 where sv4: "Save broken_zip_env ((fst (snd ?i2))\<lparr>LastError := Error ?E2\<rparr>)
      (snd (snd ?i2)) = (r4, j4, w4)"
    by (metis prod_cases3)
  from g2 sv4 have "gui_runImport broken_zip_env downloaded_job archive_world = (Some ?E2, j4, w4)"
    and "Status j4 = ''uploading''" and "LastError j4 = Error ?E2"
    and "disk_ok broken_zip_env \<and> write_faults archive_world = None
         \<longrightarrow> persisted broken_zip_env j4 w4"
    by simp_all
  with okb nfa have p2: "case gui_runImport broken_zip_env downloaded_job archive_world of
      (r, job', w') \<Rightarrow>
        r = Some ?E2 \<and> Status job' = ''uploading'' \<and>
        LastError job' = ''failed to open zip: zip: not a valid zip file'' \<and>
        persisted broken_zip_env job' w'"
    by simp

  let ?s0 = "Save offline_env (example_job\<lparr>Status := ''downloading''\<rparr>) empty_world"
  let ?d3 = "cli_downloads offline_env [0..<length (Files (fst (snd ?s0)))]
               (fst (snd ?s0), snd (snd ?s0))"
  have ev3: "fst ?d3 = Some (Wrapped ''download failed'' ?E1)" by code_simp
  have a3: "?s0 = (fst ?s0, fst (snd ?s0), snd (snd ?s0))" by simp
  from ev3 have b3: "?d3 = (Some (Wrapped ''download failed'' ?E1), fst (snd ?d3), snd (snd ?d3))"
    by (simp add: prod_eq_iff)
  note g3 = abort_keeps_phase_status [where e = offline_env and job = example_job and w = empty_world,
      THEN conjunct2, THEN conjunct2, THEN conjunct2, THEN conjunct2, THEN conjunct2,
      THEN conjunct1, rule_format, OF conjI, OF a3 b3]
  from g3 have "cli_runImport offline_env example_job empty_world
        = (Some (Wrapped ''download failed'' ?E1), fst (snd ?d3), snd (snd ?d3))"
    and "Status (fst (snd ?d3)) = ''downloading''"
    and "LastError (fst (snd ?d3)) = LastError example_job"
    and "disk_ok offline_env \<and> write_faults empty_world = None
         \<longrightarrow> persisted offline_env (fst (snd ?d3)) (snd (snd ?d3))"
    by simp_all
  with ok nf have p3: "case cli_runImport offline_env example_job empty_world of
      (r, job', w') \<Rightarrow>
        r = Some (Wrapped ''download failed'' ?E1) \<and>
        Status job' = ''downloading'' \<and> LastError job' = [] \<and>
        persisted offline_env job' w'"
    by (simp add: example_defs case_prod_beta)

  let ?t0 = "Save broken_zip_env (downloaded_job\<lparr>Status := ''downloading''\<rparr>) archive_world"
  let ?d4 = "cli_downloads broken_zip_env [0..<length (Files (fst (snd ?t0)))]
               (fst (snd ?t0), snd (snd ?t0))"
  let ?s4 = "Save broken_zip_env ((fst (snd ?d4))\<lparr>Status := ''uploading''\<rparr>) (snd (snd ?d4))"
  let ?i4 = "ImportFiles broken_zip_env (fst (snd ?s4)) (snd (snd ?s4))"
  have ev4: "fst ?d4 = None" by code_simp
  have ev4': "fst ?i4 = Some ?E2" by code_simp
  have a4: "?t0 = (fst ?t0, fst (snd ?t0), snd (snd ?t0))" by simp
  from ev4 have b4: "?d4 = (None, fst (snd ?d4), snd (snd ?d4))" by (simp add: prod_eq_iff)
  have c4: "?s4 = (fst ?s4, fst (snd ?s4), snd (snd ?s4))" by simp
  from ev4' have d4: "?i4 = (Some ?E2, fst (snd ?i4), snd (snd ?i4))" by (simp add: prod_eq_iff)
  note g4 = abort_keeps_phase_status [where e = broken_zip_env and job = downloaded_job and w = archive_world,
      THEN conjunct2, THEN conjunct2, THEN conjunct2, THEN conjunct2, THEN conjunct2,
      THEN conjunct2, THEN conjunct1, rule_format, OF conjI, OF a4 conjI, OF b4 conjI, OF c4 d4]
  from g4 have run4: "cli_runImport broken_zip_env downloaded_job archive_world
        = (Some (Wrapped ''upload failed'' ?E2), fst (snd ?i4), snd (snd ?i4))"
    and s4: "Status (fst (snd ?i4)) = ''uploading''"
    and l4: "LastError (fst (snd ?i4)) = LastError downloaded_job"
    and "disk_ok broken_zip_env \<and> write_faults archive_world = None
         \<longrightarrow> recorded broken_zip_env (snd (snd ?i4)) ''uploading'' (LastError downloaded_job)"
    by simp_all
  with okb nfa have rec4: "recorded broken_zip_env (snd (snd ?i4)) ''uploading'' []"
    by (simp add: downloaded_job_def example_defs)
  then obtain j where "persisted broken_zip_env j (snd (snd ?i4))" "Status j = ''uploading''"
    by (auto simp: recorded_def)
  then have f4: "files (snd (snd ?i4)) state_json = Some ''{uploading}''"
    by (simp add: persisted_def statePath_def appDataDir_def broken_zip_env_def example_defs)
  from run4 s4 l4 rec4 f4 have p4: "case cli_runImport broken_zip_env downloaded_job archive_world of
      (r, job', w') \<Rightarrow>
        r = Some (Wrapped ''upload failed'' ?E2) \<and>
        Status job' = ''uploading'' \<and> LastError job' = [] \<and>
        recorded broken_zip_env w' ''uploading'' [] \<and>
        files w' state_json = Some ''{uploading}''"
    by (simp add: downloaded_job_def example_defs case_prod_beta)

  let ?f = "photo_entry ''a.jpg''"
  let ?w2 = "archive_world\<lparr>progress_log := [(''uploading'', 0, 2, ''a.jpg'')]\<rparr>"
  have ev5: "fst (uploadZipEntry rejecting_env ?f ?w2)
      = Some (Failure ''upload failed: 500 Internal Server Error'')"
    by code_simp
  then obtain w5 where up: "uploadZipEntry rejecting_env ?f ?w2
      = (Some (Failure ''upload failed: 500 Internal Server Error''), w5)"
    by (cases "uploadZipEntry rejecting_env ?f ?w2") simp
  have cd: "ctx_done archive_world = (False, archive_world)"
    by (simp add: ctx_done_def archive_world_def example_defs)
  have new: "takeout_zip @ '':'' @ entry_name ?f \<notin> {}" by simp
  have led: "UploadState started_job = Some \<lparr>TotalPhotos = 2, UploadedPhotos = 0, UploadedFiles = []\<rparr>"
    by (simp add: started_job_def)
  have w2: "archive_world\<lparr>progress_log := progress_log archive_world @
        [(''uploading'', UploadedPhotos \<lparr>TotalPhotos = 2, UploadedPhotos = 0, UploadedFiles = []\<rparr>,
          TotalPhotos \<lparr>TotalPhotos = 2, UploadedPhotos = 0, UploadedFiles = []\<rparr>, entry_name ?f)]\<rparr>
      = ?w2"
    by (simp add: archive_world_def example_defs photo_entry_def)
  from up w2 have up': "uploadZipEntry rejecting_env ?f
      (archive_world\<lparr>progress_log := progress_log archive_world @
        [(''uploading'', UploadedPhotos \<lparr>TotalPhotos = 2, UploadedPhotos = 0, UploadedFiles = []\<rparr>,
          TotalPhotos \<lparr>TotalPhotos = 2, UploadedPhotos = 0, UploadedFiles = []\<rparr>, entry_name ?f)]\<rparr>)
      = (Some (Failure ''upload failed: 500 Internal Server Error''), w5)"
    by (simp only:)
  from abort_keeps_phase_status [where e = rejecting_env and job = started_job and w = archive_world,
      THEN conjunct2, THEN conjunct2, THEN conjunct2, THEN conjunct2, THEN conjunct2,
      THEN conjunct2, THEN conjunct2, THEN conjunct1, rule_format,
      OF conjI, OF cd conjI, OF new conjI, OF led up']
  have "entry_step rejecting_env takeout_zip ?f (started_job, {}, archive_world)
      = (None, started_job, {}, w5)" .
  then have p5: "case entry_step rejecting_env takeout_zip ?f (started_job, {}, archive_world) of
      (r, job', us', w') \<Rightarrow> r = None \<and> job' = started_job \<and> us' = {}"
    by simp

  have ev6: "case ImportFiles broken_zip_env downloaded_job archive_world of
      (r, job', w') \<Rightarrow> r = Some ?E2"
    by code_simp
  obtain r6 j6 w6 where run6: "ImportFiles broken_zip_env downloaded_job archive_world = (r6, j6, w6)"
    by (metis prod_cases3)
  with ev6 have r6: "ImportFiles broken_zip_env downloaded_job archive_world = (Some ?E2, j6, w6)"
    by simp
  from abort_keeps_phase_status [where e = broken_zip_env and job = downloaded_job and w = archive_world,
      THEN conjunct2, THEN conjunct2, THEN conjunct2, THEN conjunct2, THEN conjunct2,
      THEN conjunct2, THEN conjunct2, THEN conjunct2, rule_format, OF r6]
  have "?E2 = Canceled \<or> (\<exists>e0. ?E2 = Wrapped ''failed to open zip'' e0)" .
  with r6 have p6: "case ImportFiles broken_zip_env downloaded_job archive_world of
      (r, job', w') \<Rightarrow> r = Some ?E2"
    by simp
  have si': "StartImport offline_env [''drive-1''] None ''job-1'' ''http://immich.local'' empty_world
      = started_import"
    by (simp add: started_import_def)
  from si' ok okb nf nf1 nfa p1 p2 p3 p4 ev5 p5 p6 show ?thesis by (intro conjI)
qed

text \<open>
  C4, as stated, fails: when the store cannot be reached, the command-line run saves
  the job with status \<open>downloading\<close> and an empty \<open>LastError\<close>, and the desktop run
  saves it with status \<open>downloading\<close> and the message; when the archive cannot be
  opened, both leave the status \<open>uploading\<close>. None has the status \<open>error\<close>.
\<close>

theorem aborted_run_is_not_status_error:
  "(case cli_runImport offline_env example_job empty_world of
      (r, job', w') \<Rightarrow>
        r = Some (Wrapped ''download failed''
                    (Wrapped ''failed to download'' (Failure ''connection refused''))) \<and>
        Status job' = ''downloading'' \<and> LastError job' = [] \<and>
        files w' state_json = Some ''{downloading}'') \<and>
   (case gui_runImport offline_env (fst started_import) (snd started_import) of
      (r, job', w') \<Rightarrow>
        r = Some (Wrapped ''failed to download'' (Failure ''connection refused'')) \<and>
        Status job' = ''downloading'' \<and>
        LastError job' = ''failed to download: connection refused'' \<and>
        files w' state_json = Some ''{downloading}'') \<and>
   (case cli_runImport broken_zip_env downloaded_job archive_world of
      (r, job', w') \<Rightarrow>
        r = Some (Wrapped ''upload failed''
                    (Wrapped ''failed to open zip'' (Failure ''zip: not a valid zip file''))) \<and>
        Status job' = ''uploading'' \<and> LastError job' = [] \<and>
        files w' state_json = Some ''{uploading}'')"
  by code_simp

subsection \<open>The local file and the count of a download\<close>

lemma Write_len:
  assumes "Write path b w = (r, w')" and "files w path = Some c"
  shows "\<exists>x. files w' = (files w)(path := Some (c @ x)) \<and> (r = None \<longrightarrow> x = b)"
  using assms
  by (auto simp: Write_def append_file_def split: option.splits nat.splits prod.splits)

lemma write_counted_len:
  assumes wc: "write_counted path b fl w = (r, fl', w')" and c: "files w path = Some c"
  shows "\<exists>k x. files w' = (files w)(path := Some (c @ x)) \<and> k \<le> length x \<and>
           fl' = fl\<lparr>BytesDownloaded := BytesDownloaded fl + of_nat k\<rparr>"
proof (cases "0 < length b")
  case False
  with wc have "w' = w" "fl' = fl" by (simp_all add: write_counted_def)
  with c have "files w' = (files w)(path := Some (c @ [])) \<and> 0 \<le> length ([] :: string) \<and>
           fl' = fl\<lparr>BytesDownloaded := BytesDownloaded fl + of_nat 0\<rparr>"
    by (simp add: fun_upd_idem)
  then show ?thesis by blast
next
  case True
  obtain r1 w1 where wr: "Write path b w = (r1, w1)" by (cases "Write path b w")
  from Write_len [OF wr c] obtain x where
    x: "files w1 = (files w)(path := Some (c @ x))" "r1 = None \<longrightarrow> x = b" by blast
  show ?thesis
  proof (cases r1)
    case None
    with wc True wr have "w' = w1" "fl' = fl\<lparr>BytesDownloaded := BytesDownloaded fl + of_nat (length b)\<rparr>"
      by (simp_all add: write_counted_def)
    with x None have "files w' = (files w)(path := Some (c @ x)) \<and> length b \<le> length x \<and>
           fl' = fl\<lparr>BytesDownloaded := BytesDownloaded fl + of_nat (length b)\<rparr>"
      by simp
    then show ?thesis by blast
  next
    case (Some err)
    with wc True wr have "w' = w1" "fl' = fl" by (simp_all add: write_counted_def)
    with x have "files w' = (files w)(path := Some (c @ x)) \<and> 0 \<le> length x \<and>
           fl' = fl\<lparr>BytesDownloaded := BytesDownloaded fl + of_nat 0\<rparr>"
      by simp
    then show ?thesis by blast
  qed
qed

lemma copy_body_len:
  "copy_body path bd fl w = (r, fl', w') \<Longrightarrow> files w path = Some c \<Longrightarrow>
   \<exists>k x. files w' = (files w)(path := Some (c @ x)) \<and> k \<le> length x \<and>
     fl' = fl\<lparr>BytesDownloaded := BytesDownloaded fl + of_nat k\<rparr>"
proof (induction bd arbitrary: fl w c)
  case (Chunk b rest)
  have keep: "w' = w1 \<Longrightarrow> fl' = fl \<Longrightarrow> files w1 = files w \<Longrightarrow> ?case" for w1
  proof -
    assume "w' = w1" "fl' = fl" "files w1 = files w"
    with Chunk.prems(2) have "files w' = (files w)(path := Some (c @ [])) \<and>
        0 \<le> length ([] :: string) \<and> fl' = fl\<lparr>BytesDownloaded := BytesDownloaded fl + of_nat 0\<rparr>"
      by (simp add: fun_upd_idem)
    then show ?case by blast
  qed
  obtain cc w1 where cd: "ctx_done w = (cc, w1)" by (cases "ctx_done w")
  from ctx_done_fields [OF cd] have f1: "files w1 = files w" by simp
  show ?case
  proof (cases cc)
    case True
    with Chunk.prems(1) cd have "w' = w1" "fl' = fl" by simp_all
    from keep [OF this f1] show ?thesis .
  next
    case False
    obtain r1 file1 w2 where wc: "write_counted path b fl w1 = (r1, file1, w2)"
      by (metis prod_cases3)
    from Chunk.prems(2) f1 have c1: "files w1 path = Some c" by simp
    from write_counted_len [OF wc c1] f1 obtain k1 x1 where
      s1: "files w2 = (files w)(path := Some (c @ x1))" "k1 \<le> length x1"
        "file1 = fl\<lparr>BytesDownloaded := BytesDownloaded fl + of_nat k1\<rparr>"
      by auto
    show ?thesis
    proof (cases r1)
      case (Some err)
      with Chunk.prems(1) cd False wc have "w' = w2" "fl' = file1" by simp_all
      with s1 show ?thesis by blast
    next
      case None
      with Chunk.prems(1) cd False wc have rest: "copy_body path rest file1 w2 = (r, fl', w')"
        by simp
      from s1(1) have c2: "files w2 path = Some (c @ x1)" by simp
      from Chunk.IH [OF rest c2] obtain k2 x2 where
        s2: "files w' = (files w2)(path := Some ((c @ x1) @ x2))" "k2 \<le> length x2"
          "fl' = file1\<lparr>BytesDownloaded := BytesDownloaded file1 + of_nat k2\<rparr>"
        by blast
      from s1 s2 have "files w' = (files w)(path := Some (c @ (x1 @ x2))) \<and>
          k1 + k2 \<le> length (x1 @ x2) \<and>
          fl' = fl\<lparr>BytesDownloaded := BytesDownloaded fl + of_nat (k1 + k2)\<rparr>"
        by (simp add: add.assoc)
      then show ?thesis by blast
    qed
  qed
next
  case (Last b fin)
  obtain cc w1 where cd: "ctx_done w = (cc, w1)" by (cases "ctx_done w")
  from ctx_done_fields [OF cd] have f1: "files w1 = files w" by simp
  show ?case
  proof (cases cc)
    case True
    with Last.prems(1) cd have "w' = w1" "fl' = fl" by simp_all
    with f1 Last.prems(2) have "files w' = (files w)(path := Some (c @ [])) \<and>
        0 \<le> length ([] :: string) \<and> fl' = fl\<lparr>BytesDownloaded := BytesDownloaded fl + of_nat 0\<rparr>"
      by (simp add: fun_upd_idem)
    then show ?thesis by blast
  next
    case False
    obtain r1 file1 w2 where wc: "write_counted path b fl w1 = (r1, file1, w2)"
      by (metis prod_cases3)
    from Last.prems(2) f1 have c1: "files w1 path = Some c" by simp
    from write_counted_len [OF wc c1] f1 obtain k1 x1 where
      s1: "files w2 = (files w)(path := Some (c @ x1))" "k1 \<le> length x1"
        "file1 = fl\<lparr>BytesDownloaded := BytesDownloaded fl + of_nat k1\<rparr>"
      by auto
    from Last.prems(1) cd False wc have "w' = w2" "fl' = file1"
      by (cases r1; cases fin; simp)+
    with s1 show ?thesis by blast
  qed
qed


lemma fetch_len:
  assumes run: "fetch e path start fl w = (r, fl', w')"
  shows "Name fl' = Name fl \<and>
         ((files w' = files w \<and> BytesDownloaded fl' = BytesDownloaded fl) \<or>
          (\<exists>k x. files w' = (files w)(path := Some
                     ((if 0 <s start then (case files w path of None \<Rightarrow> [] | Some c \<Rightarrow> c) else []) @ x)) \<and>
                 k \<le> length x \<and> BytesDownloaded fl' = BytesDownloaded fl + of_nat k))"
proof -
  obtain res w1 where dr: "DownloadFileRange e (DriveID fl) start w = (res, w1)"
    by (cases "DownloadFileRange e (DriveID fl) start w")
  then have f1: "files w1 = files w" by (auto simp: DownloadFileRange_def Let_def)
  show ?thesis
  proof (cases res)
    case (Inl err)
    with run dr have "w' = w1" "fl' = fl" by (simp_all add: fetch_def)
    with f1 show ?thesis by simp
  next
    case (Inr resp)
    show ?thesis
    proof (cases "StatusCode resp \<noteq> 200 \<and> StatusCode resp \<noteq> 206")
      case True
      with run dr Inr have "w' = w1" "fl' = fl" by (simp_all add: fetch_def)
      with f1 show ?thesis by simp
    next
      case False
      show ?thesis
      proof (cases "OpenFile e path (0 <s start) w1")
        case (Inl err)
        with run dr \<open>res = Inr resp\<close> False have "w' = w1" "fl' = fl" by (simp_all add: fetch_def)
        with f1 show ?thesis by simp
      next
        case (Inr w2)
        let ?c0 = "if 0 <s start then (case files w path of None \<Rightarrow> [] | Some c \<Rightarrow> c) else []"
        from Inr f1 have f2: "files w2 = (files w)(path := Some ?c0)"
          by (auto simp: OpenFile_def fun_upd_idem split: option.splits if_splits)
        then have c2: "files w2 path = Some ?c0" by simp
        obtain r3 file3 w3 where cb: "copy_body path (Body resp) fl w2 = (r3, file3, w3)"
          by (metis prod_cases3)
        from copy_body_len [OF cb c2] f2 obtain k x where
          kx: "files w3 = (files w)(path := Some (?c0 @ x))" "k \<le> length x"
            "file3 = fl\<lparr>BytesDownloaded := BytesDownloaded fl + of_nat k\<rparr>"
          by auto
        from run dr \<open>res = Inr resp\<close> False Inr cb
        have "w' = w3" "fl' = file3 \<or> fl' = file3\<lparr>Downloaded := True\<rparr>"
          by (cases r3; simp add: fetch_def)+
        with kx have "Name fl' = Name fl" "files w' = (files w)(path := Some (?c0 @ x))"
          "BytesDownloaded fl' = BytesDownloaded fl + of_nat k"
          by auto
        with kx(2) show ?thesis by blast
      qed
    qed
  qed
qed

lemma local_len_Name: "Name a = Name b \<Longrightarrow> local_len e a w = local_len e b w"
  by (simp add: local_len_def local_path_def split: sum.splits)

lemma positive_of_nat:
  assumes "n < 2 ^ 63"
  shows "0 <s (of_nat n :: 64 word) \<longleftrightarrow> 0 < n"
  using sint_of_nat_small [OF assms] by (simp add: word_sless_alt)

text \<open>
  What one call of \<open>DownloadFile\<close> does to the local file and to the count, when the
  local file is shorter than \<open>2 ^ 63\<close> bytes: the file grows by \<open>n\<close> bytes, of which
  \<open>k\<close> are counted, and no other file changes.
\<close>

lemma DownloadFile_len:
  assumes run: "DownloadFile e fl w = (r, fl', w')"
    and p: "local_path e fl = Some p"
    and fit: "local_len e fl w < 2 ^ 63"
  shows "Name fl' = Name fl \<and> (\<forall>q. q \<noteq> p \<longrightarrow> files w' q = files w q) \<and>
         (\<exists>k n. k \<le> n \<and>
            (case files w' p of None \<Rightarrow> 0 | Some c \<Rightarrow> length c) = local_len e fl w + n \<and>
            BytesDownloaded fl' =
              (case files w p of None \<Rightarrow> BytesDownloaded fl | Some c \<Rightarrow> of_nat (length c))
              + of_nat k)"
proof -
  from p obtain dir where dir: "GetDownloadDir e = Inr dir" "p = Join e [dir, Name fl]"
    by (auto simp: local_path_def split: sum.splits)
  show ?thesis
  proof (cases "files w p")
    case None
    with p have L: "local_len e fl w = 0" by (simp add: local_len_def)
    from dir run None have ft: "fetch e p 0 (fl\<lparr>LocalPath := p\<rparr>) w = (r, fl', w')"
      by (simp add: DownloadFile_def Let_def)
    from fetch_len [OF ft] have nm: "Name fl' = Name fl" by simp
    from fetch_len [OF ft] consider
      (same) "files w' = files w" "BytesDownloaded fl' = BytesDownloaded fl"
      | (grown) k x where "files w' = (files w)(p := Some x)" "k \<le> length x"
          "BytesDownloaded fl' = BytesDownloaded fl + of_nat k"
      by (auto simp: None)
    then show ?thesis
    proof cases
      case same
      with None L have "(0::nat) \<le> 0 \<and>
          (case files w' p of None \<Rightarrow> 0 | Some c \<Rightarrow> length c) = local_len e fl w + 0 \<and>
          BytesDownloaded fl' =
            (case files w p of None \<Rightarrow> BytesDownloaded fl | Some c \<Rightarrow> of_nat (length c)) + of_nat 0"
        by simp
      moreover from same have "\<forall>q. q \<noteq> p \<longrightarrow> files w' q = files w q" by simp
      ultimately show ?thesis using nm by blast
    next
      case grown
      with None L have "k \<le> length x \<and>
          (case files w' p of None \<Rightarrow> 0 | Some c \<Rightarrow> length c) = local_len e fl w + length x \<and>
          BytesDownloaded fl' =
            (case files w p of None \<Rightarrow> BytesDownloaded fl | Some c \<Rightarrow> of_nat (length c)) + of_nat k"
        by simp
      moreover from grown have "\<forall>q. q \<noteq> p \<longrightarrow> files w' q = files w q" by simp
      ultimately show ?thesis using nm by blast
    qed
  next
    case (Some c)
    with p have L: "local_len e fl w = length c" by (simp add: local_len_def)
    with fit have small: "length c < 2 ^ 63" by simp
    let ?f2 = "fl\<lparr>LocalPath := p, BytesDownloaded := of_nat (length c)\<rparr>"
    show ?thesis
    proof (cases "0 <s Size fl \<and> Size fl \<le>s of_nat (length c)")
      case True
      with dir run Some have "w' = w" "fl' = ?f2\<lparr>Downloaded := True\<rparr>"
        by (simp_all add: DownloadFile_def Let_def)
      with Some L have "Name fl' = Name fl \<and> (\<forall>q. q \<noteq> p \<longrightarrow> files w' q = files w q) \<and>
          (0::nat) \<le> 0 \<and>
          (case files w' p of None \<Rightarrow> 0 | Some c \<Rightarrow> length c) = local_len e fl w + 0 \<and>
          BytesDownloaded fl' =
            (case files w p of None \<Rightarrow> BytesDownloaded fl | Some c \<Rightarrow> of_nat (length c)) + of_nat 0"
        by simp
      then show ?thesis by blast
    next
      case False
      with dir run Some have ft: "fetch e p (of_nat (length c)) ?f2 w = (r, fl', w')"
        by (auto simp: DownloadFile_def Let_def)
      from fetch_len [OF ft] have nm: "Name fl' = Name fl" by simp
      have c1: "(if 0 <s (of_nat (length c) :: 64 word) then c else []) = c"
        using positive_of_nat [OF small] by auto
      have c0: "(if 0 <s (of_nat (length c) :: 64 word)
                 then (case files w p of None \<Rightarrow> [] | Some c \<Rightarrow> c) else []) = c"
        unfolding Some option.case by (rule c1)
      from fetch_len [OF ft]
      have "(files w' = files w \<and> BytesDownloaded fl' = of_nat (length c)) \<or>
            (\<exists>k x. files w' = (files w)(p := Some (c @ x)) \<and> k \<le> length x \<and>
                   BytesDownloaded fl' = of_nat (length c) + of_nat k)"
        by (simp add: c0)
      then consider
        (same) "files w' = files w" "BytesDownloaded fl' = of_nat (length c)"
        | (grown) k x where "files w' = (files w)(p := Some (c @ x))" "k \<le> length x"
            "BytesDownloaded fl' = of_nat (length c) + of_nat k"
        by blast
      then show ?thesis
      proof cases
        case same
        with Some L have "(0::nat) \<le> 0 \<and>
            (case files w' p of None \<Rightarrow> 0 | Some c \<Rightarrow> length c) = local_len e fl w + 0 \<and>
            BytesDownloaded fl' =
              (case files w p of None \<Rightarrow> BytesDownloaded fl | Some c \<Rightarrow> of_nat (length c)) + of_nat 0"
          by simp
        moreover from same have "\<forall>q. q \<noteq> p \<longrightarrow> files w' q = files w q" by simp
        ultimately show ?thesis using nm by blast
      next
        case grown
        with Some L have "k \<le> length x \<and>
            (case files w' p of None \<Rightarrow> 0 | Some c \<Rightarrow> length c) = local_len e fl w + length x \<and>
            BytesDownloaded fl' =
              (case files w p of None \<Rightarrow> BytesDownloaded fl | Some c \<Rightarrow> of_nat (length c)) + of_nat k"
          by simp
        moreover from grown have "\<forall>q. q \<noteq> p \<longrightarrow> files w' q = files w q" by simp
        ultimately show ?thesis using nm by blast
      qed
    qed
  qed
qed


text \<open>
  One call of \<open>DownloadFile\<close> on a file whose count is not ahead of its local file:
  the count does not decrease and is not ahead of the local file afterwards, and no
  local file gets shorter.
\<close>

lemma DownloadFile_counts:
  assumes run: "DownloadFile e fl w = (r, fl', w')"
    and inv: "sint (BytesDownloaded fl) \<le> int (local_len e fl w)"
    and fit: "local_len e fl w < 2 ^ 63" and fit': "local_len e fl w' < 2 ^ 63"
  shows "Name fl' = Name fl \<and> BytesDownloaded fl \<le>s BytesDownloaded fl' \<and>
         sint (BytesDownloaded fl') \<le> int (local_len e fl w') \<and>
         (\<forall>fl2. local_len e fl2 w \<le> local_len e fl2 w')"
proof (cases "local_path e fl")
  case None
  then obtain err where "GetDownloadDir e = Inl err"
    by (auto simp: local_path_def split: sum.splits)
  with run have "fl' = fl" "w' = w" by (simp_all add: DownloadFile_def)
  with inv show ?thesis by (simp add: word_sle_eq)
next
  case (Some p)
  let ?L = "local_len e fl w"
  from DownloadFile_len [OF run Some fit] obtain k n where
    nm: "Name fl' = Name fl" and frame: "\<forall>q. q \<noteq> p \<longrightarrow> files w' q = files w q"
    and kn: "k \<le> n"
    and len: "(case files w' p of None \<Rightarrow> 0 | Some c \<Rightarrow> length c) = ?L + n"
    and cnt: "BytesDownloaded fl' =
              (case files w p of None \<Rightarrow> BytesDownloaded fl | Some c \<Rightarrow> of_nat (length c))
              + of_nat k"
    by blast
  from Some len have L': "local_len e fl w' = ?L + n" by (simp add: local_len_def)
  with fit' have bound: "?L + n < 2 ^ 63" by simp
  have grow: "\<forall>fl2. local_len e fl2 w \<le> local_len e fl2 w'"
  proof
    fix fl2
    show "local_len e fl2 w \<le> local_len e fl2 w'"
    proof (cases "local_path e fl2 = Some p")
      case True
      with Some have "local_len e fl2 w = ?L" "local_len e fl2 w' = local_len e fl w'"
        by (simp_all add: local_len_def)
      with L' show ?thesis by simp
    next
      case False
      with frame have "local_len e fl2 w' = local_len e fl2 w"
        by (auto simp: local_len_def split: option.splits)
      then show ?thesis by simp
    qed
  qed
  have "BytesDownloaded fl \<le>s BytesDownloaded fl' \<and>
        sint (BytesDownloaded fl') \<le> int (local_len e fl w')"
  proof (cases "files w p")
    case None
    with Some have L0: "?L = 0" by (simp add: local_len_def)
    with inv have neg: "sint (BytesDownloaded fl) \<le> 0" by simp
    from None cnt have c': "BytesDownloaded fl' = BytesDownloaded fl + of_nat k" by simp
    from kn bound L0 have kb: "int k < 2 ^ 63" by simp
    have "- (2 ^ 63) \<le> sint (BytesDownloaded fl)"
      using sint_ge [of "BytesDownloaded fl"] by simp
    then have lo: "- (2 ^ 63) \<le> sint (BytesDownloaded fl) + int k" by simp
    from neg kb have hi: "sint (BytesDownloaded fl) + int k < 2 ^ 63" by simp
    from sint_add_of_nat [OF lo hi] c'
    have s': "sint (BytesDownloaded fl') = sint (BytesDownloaded fl) + int k" by simp
    from s' neg kn L' L0 show ?thesis by (simp add: word_sle_eq)
  next
    case (Some c)
    with \<open>local_path e fl = Some p\<close> have Lc: "?L = length c" by (simp add: local_len_def)
    from Some cnt have "BytesDownloaded fl' = of_nat (length c) + of_nat k" by simp
    then have c': "BytesDownloaded fl' = of_nat (length c + k)" by simp
    from kn bound Lc have "length c + k < 2 ^ 63" by simp
    from sint_of_nat_small [OF this] c'
    have s': "sint (BytesDownloaded fl') = int (length c + k)" by (simp only:)
    from s' inv Lc L' kn show ?thesis by (simp add: word_sle_eq)
  qed
  with nm grow show ?thesis by blast
qed


text \<open>\<open>Save\<close>, and so \<open>ImportFiles\<close>, writes no file but the record.\<close>

lemma Save_other_files:
  assumes sv: "Save e s w = (r, s', w')" and p: "statePath e \<noteq> Inr p"
  shows "files w' p = files w p"
proof (cases "statePath e")
  case (Inl err)
  with sv have "w' = w" by (simp add: Save_def)
  then show ?thesis by simp
next
  case (Inr path)
  with p have "p \<noteq> path" by auto
  with Save_files [OF Inr sv] show ?thesis by auto
qed

lemma entry_step_other:
  assumes st: "entry_step e zipPath f (job, us, w) = (r, job', us', w')"
    and p: "statePath e \<noteq> Inr p"
  shows "files w' p = files w p"
  using entry_step_files [OF st] Save_other_files [OF _ p] by metis

lemma upload_entries_other:
  "upload_entries e zipPath fs (job, us, w) = (r, job', us', w') \<Longrightarrow> statePath e \<noteq> Inr p \<Longrightarrow>
   files w' p = files w p"
proof (induction fs arbitrary: job us w)
  case Nil
  then show ?case by simp
next
  case (Cons f fs)
  obtain r1 job1 us1 w1 where st: "entry_step e zipPath f (job, us, w) = (r1, job1, us1, w1)"
    by (metis prod_cases4)
  from entry_step_other [OF st Cons.prems(2)] have f1: "files w1 p = files w p" .
  show ?case
  proof (cases r1)
    case None
    with Cons.prems(1) st have "upload_entries e zipPath fs (job1, us1, w1) = (r, job', us', w')"
      by simp
    from Cons.IH [OF this Cons.prems(2)] f1 show ?thesis by simp
  next
    case (Some err)
    with Cons.prems(1) st have "w' = w1" by simp
    with f1 show ?thesis by simp
  qed
qed

lemma processZipFile_other:
  assumes run: "processZipFile e zipPath (job, us, w) = (r, job', us', w')"
    and p: "statePath e \<noteq> Inr p"
  shows "files w' p = files w p"
proof (cases "OpenReader e w zipPath")
  case (Inl err)
  with run have "w' = w" by (simp add: processZipFile_def)
  then show ?thesis by simp
next
  case (Inr entries)
  show ?thesis
  proof (cases "UploadState job")
    case None
    with run Inr have "w' = w" by (simp add: processZipFile_def)
    then show ?thesis by simp
  next
    case (Some u)
    let ?job1 = "job\<lparr>UploadState := Some (u\<lparr>TotalPhotos := TotalPhotos u + of_nat (length (photoFiles e entries))\<rparr>)\<rparr>"
    from run Inr Some
    have "upload_entries e zipPath (photoFiles e entries) (?job1, us, w) = (r, job', us', w')"
      by (simp add: processZipFile_def)
    from upload_entries_other [OF this p] show ?thesis .
  qed
qed

lemma import_files_other:
  "import_files e fs (job, us, w) = (r, job', us', w') \<Longrightarrow> statePath e \<noteq> Inr p \<Longrightarrow>
   files w' p = files w p"
proof (induction fs arbitrary: job us w)
  case Nil
  then show ?case by simp
next
  case (Cons fl fs)
  show ?case
  proof (cases "is_archive e fl")
    case False
    with Cons.prems(1) have "import_files e fs (job, us, w) = (r, job', us', w')"
      by (simp add: import_files_Cons del: import_files.simps)
    from Cons.IH [OF this Cons.prems(2)] show ?thesis .
  next
    case True
    obtain r1 job1 us1 w1 where st: "processZipFile e (LocalPath fl) (job, us, w) = (r1, job1, us1, w1)"
      by (metis prod_cases4)
    from processZipFile_other [OF st Cons.prems(2)] have f1: "files w1 p = files w p" .
    show ?thesis
    proof (cases r1)
      case None
      with Cons.prems(1) st True have "import_files e fs (job1, us1, w1) = (r, job', us', w')"
        by (simp add: import_files_Cons del: import_files.simps)
      from Cons.IH [OF this Cons.prems(2)] f1 show ?thesis by simp
    next
      case (Some err)
      with Cons.prems(1) st True have "w' = w1"
        by (simp add: import_files_Cons del: import_files.simps)
      with f1 show ?thesis by simp
    qed
  qed
qed

lemma ImportFiles_other:
  assumes run: "ImportFiles e job w = (r, job', w')" and p: "statePath e \<noteq> Inr p"
  shows "files w' p = files w p"
proof -
  let ?job1 = "job\<lparr>UploadState := Some (init_upload job)\<rparr>"
  obtain us' where "import_files e (Files job) (?job1, set (UploadedFiles (init_upload job)), w) = (r, job', us', w')"
    using run by (auto simp: ImportFiles_def Let_def split: prod.splits)
  from import_files_other [OF this p] show ?thesis .
qed


lemma counters_leI:
  assumes f: "list_all2 (\<lambda>a b. Name b = Name a \<and> BytesDownloaded a \<le>s BytesDownloaded b)
                (Files job) (Files job')"
    and p: "prefix (UploadedFiles (init_upload job)) (UploadedFiles (init_upload job'))"
    and n: "UploadedPhotos (init_upload job') =
              UploadedPhotos (init_upload job) +
                of_nat (length (UploadedFiles (init_upload job')) - length (UploadedFiles (init_upload job)))"
  shows "counters_le job job'"
proof -
  let ?u = "init_upload job" and ?u' = "init_upload job'"
  let ?d = "length (UploadedFiles ?u') - length (UploadedFiles ?u)"
  from p have "set (UploadedFiles ?u) \<subseteq> set (UploadedFiles ?u')" by (rule set_mono_prefix)
  then have c: "card (set (UploadedFiles ?u)) \<le> card (set (UploadedFiles ?u'))"
    by (simp add: card_mono)
  have m: "sint (UploadedPhotos ?u) + int ?d < 2 ^ 63 \<longrightarrow> UploadedPhotos ?u \<le>s UploadedPhotos ?u'"
  proof
    assume hi: "sint (UploadedPhotos ?u) + int ?d < 2 ^ 63"
    have "- (2 ^ 63) \<le> sint (UploadedPhotos ?u)"
      using sint_ge [of "UploadedPhotos ?u"] by simp
    then have lo: "- (2 ^ 63) \<le> sint (UploadedPhotos ?u) + int ?d" by simp
    from sint_add_of_nat [OF lo hi] n
    have "sint (UploadedPhotos ?u') = sint (UploadedPhotos ?u) + int ?d" by simp
    then show "UploadedPhotos ?u \<le>s UploadedPhotos ?u'" by (simp add: word_sle_eq)
  qed
  from f p c n m show ?thesis unfolding counters_le_def by (intro conjI)
qed

lemma counters_le_refl: "counters_le job job"
  by (rule counters_leI) (simp_all add: list_all2_conv_all_nth word_sle_eq)

lemma counters_le_trans:
  assumes a: "counters_le j0 j1" and b: "counters_le j1 j2"
  shows "counters_le j0 j2"
proof (rule counters_leI)
  let ?R = "\<lambda>a b. Name b = Name a \<and> BytesDownloaded a \<le>s BytesDownloaded b"
  from a b have "list_all2 ?R (Files j0) (Files j1)" "list_all2 ?R (Files j1) (Files j2)"
    by (simp_all add: counters_le_def)
  then show "list_all2 ?R (Files j0) (Files j2)"
    by (rule list_all2_trans [rotated]) (auto simp: word_sle_eq)
  let ?l0 = "UploadedFiles (init_upload j0)" and ?l1 = "UploadedFiles (init_upload j1)"
  let ?l2 = "UploadedFiles (init_upload j2)"
  from a b have p: "prefix ?l0 ?l1" "prefix ?l1 ?l2" by (simp_all add: counters_le_def)
  then show "prefix ?l0 ?l2" by (rule prefix_order.trans)
  from p have le: "length ?l0 \<le> length ?l1" "length ?l1 \<le> length ?l2"
    by (simp_all add: prefix_length_le)
  from a b have "UploadedPhotos (init_upload j2) =
      UploadedPhotos (init_upload j0) + of_nat (length ?l1 - length ?l0) + of_nat (length ?l2 - length ?l1)"
    by (simp add: counters_le_def)
  also have "\<dots> = UploadedPhotos (init_upload j0) + of_nat ((length ?l1 - length ?l0) + (length ?l2 - length ?l1))"
    by (simp add: add.assoc)
  also from le have "(length ?l1 - length ?l0) + (length ?l2 - length ?l1) = length ?l2 - length ?l0"
    by simp
  finally show "UploadedPhotos (init_upload j2) =
      UploadedPhotos (init_upload j0) + of_nat (length ?l2 - length ?l0)" .
qed

lemma apart_Name: "map Name (Files a) = map Name (Files b) \<Longrightarrow> apart e a = apart e b"
proof -
  assume n: "map Name (Files a) = map Name (Files b)"
  have "apart e j = list_all (\<lambda>nm. case (case GetDownloadDir e of Inl err \<Rightarrow> None
                                            | Inr dir \<Rightarrow> Some (Join e [dir, nm])) of
                                      None \<Rightarrow> True | Some p \<Rightarrow> statePath e \<noteq> Inr p)
                    (map Name (Files j))" for j
    by (simp add: apart_def local_path_def list_all_iff)
  with n show ?thesis by simp
qed

lemma counters_le_Names: "counters_le a b \<Longrightarrow> map Name (Files b) = map Name (Files a)"
  by (auto simp: counters_le_def list_all2_conv_all_nth intro: nth_equalityI)

text \<open>One call keeps the counters and the invariant.\<close>

lemma apply_call_step:
  assumes ac: "apply_call e c (job, w) = (job1, w1)"
    and inv: "count_inv e (job, w)" and ap: "apart e job"
    and fit: "sizes_fit e (job, w)" and fit1: "sizes_fit e (job1, w1)"
  shows "counters_le job job1 \<and> count_inv e (job1, w1)"
proof (cases c)
  case Import
  obtain r where run: "ImportFiles e job w = (r, job1, w1)"
    using ac Import by (auto simp: apply_call_def split: prod.splits)
  from ImportFiles_ledger [OF run] obtain u' added where
    fs: "Files job1 = Files job" and u': "UploadState job1 = Some u'"
    and l: "UploadedFiles u' = UploadedFiles (init_upload job) @ added"
      "UploadedPhotos u' = UploadedPhotos (init_upload job) + of_nat (length added)"
    by blast
  from u' have iu: "init_upload job1 = u'" by (simp add: init_upload_def)
  from fs l iu have cl: "counters_le job job1"
    by (intro counters_leI) (simp_all add: list_all2_conv_all_nth word_sle_eq)
  have "local_len e fl w1 = local_len e fl w" if "fl \<in> set (Files job)" for fl
  proof (cases "local_path e fl")
    case None
    then show ?thesis by (simp add: local_len_def)
  next
    case (Some p)
    with ap that have "statePath e \<noteq> Inr p" by (auto simp: apart_def list_all_iff)
    from ImportFiles_other [OF run this] Some show ?thesis by (simp add: local_len_def)
  qed
  with inv fs have "count_inv e (job1, w1)" by (simp add: count_inv_def list_all_iff)
  with cl show ?thesis by simp
next
  case (Download i)
  show ?thesis
  proof (cases "i < length (Files job)")
    case False
    with ac Download have "job1 = job" "w1 = w" by (simp_all add: apply_call_def)
    with inv counters_le_refl show ?thesis by simp
  next
    case True
    let ?fl = "Files job ! i"
    obtain r fl' where run: "DownloadFile e ?fl w = (r, fl', w1)"
      and j1: "job1 = job\<lparr>Files := (Files job)[i := fl']\<rparr>"
      using ac Download True by (auto simp: apply_call_def split: prod.splits)
    from True have mem: "?fl \<in> set (Files job)" by simp
    with inv have i0: "sint (BytesDownloaded ?fl) \<le> int (local_len e ?fl w)"
      by (simp add: count_inv_def list_all_iff)
    from mem fit have f0: "local_len e ?fl w < 2 ^ 63" by (simp add: sizes_fit_def list_all_iff)
    from j1 True have "fl' \<in> set (Files job1)" by (simp add: set_update_memI)
    with fit1 have f1': "local_len e fl' w1 < 2 ^ 63" by (simp add: sizes_fit_def list_all_iff)
    have nm0: "Name fl' = Name ?fl" using run
      by (auto simp: DownloadFile_def Let_def dest: fetch_len split: sum.splits option.splits if_splits)
    from f1' local_len_Name [OF nm0] have f1: "local_len e ?fl w1 < 2 ^ 63" by simp
    from DownloadFile_counts [OF run i0 f0 f1]
    have nm: "Name fl' = Name ?fl" and le: "BytesDownloaded ?fl \<le>s BytesDownloaded fl'"
      and i1: "sint (BytesDownloaded fl') \<le> int (local_len e ?fl w1)"
      and grow: "\<forall>fl2. local_len e fl2 w \<le> local_len e fl2 w1"
      by simp_all
    have "Name ((Files job)[i := fl'] ! k) = Name (Files job ! k) \<and>
          BytesDownloaded (Files job ! k) \<le>s BytesDownloaded ((Files job)[i := fl'] ! k)"
      if "k < length (Files job)" for k
      using that nm le by (cases "k = i") (simp_all add: word_sle_eq)
    then have "list_all2 (\<lambda>a b. Name b = Name a \<and> BytesDownloaded a \<le>s BytesDownloaded b)
            (Files job) ((Files job)[i := fl'])"
      by (simp add: list_all2_conv_all_nth)
    with j1 have cl: "counters_le job job1"
      by (intro counters_leI) (simp_all add: init_upload_def)
    have "sint (BytesDownloaded fl2) \<le> int (local_len e fl2 w1)"
      if "fl2 \<in> set ((Files job)[i := fl'])" for fl2
    proof (cases "fl2 = fl'")
      case True
      with i1 local_len_Name [OF nm] show ?thesis by simp
    next
      case False
      with that have "fl2 \<in> set (Files job)"
        using set_update_subset_insert [of "Files job" i fl'] by auto
      with inv have "sint (BytesDownloaded fl2) \<le> int (local_len e fl2 w)"
        by (simp add: count_inv_def list_all_iff)
      moreover from grow have "int (local_len e fl2 w) \<le> int (local_len e fl2 w1)" by simp
      ultimately show ?thesis by simp
    qed
    with j1 have "count_inv e (job1, w1)" by (simp add: count_inv_def list_all_iff)
    with cl show ?thesis by simp
  qed
qed

lemma trace_Cons: "\<exists>rest. trace e cs st = st # rest"
  by (cases cs) simp_all

lemma trace_all:
  "count_inv e (job, w) \<Longrightarrow> apart e job \<Longrightarrow> list_all (sizes_fit e) (trace e cs (job, w)) \<Longrightarrow>
   sorted_wrt (\<lambda>a b. counters_le (fst a) (fst b)) (trace e cs (job, w)) \<and>
   list_all (\<lambda>st. counters_le job (fst st) \<and> count_inv e st \<and> apart e (fst st))
     (trace e cs (job, w))"
proof (induction cs arbitrary: job w)
  case Nil
  then show ?case using counters_le_refl by simp
next
  case (Cons c cs)
  obtain job1 w1 where ac: "apply_call e c (job, w) = (job1, w1)"
    by (cases "apply_call e c (job, w)")
  from trace_Cons [of e cs "(job1, w1)"] obtain rest where
    tr: "trace e cs (job1, w1) = (job1, w1) # rest" by blast
  from Cons.prems(3) ac have fit: "sizes_fit e (job, w)"
    and fits1: "list_all (sizes_fit e) (trace e cs (job1, w1))" by simp_all
  with tr have fit1: "sizes_fit e (job1, w1)" by simp
  from apply_call_step [OF ac Cons.prems(1,2) fit fit1]
  have cl: "counters_le job job1" and inv1: "count_inv e (job1, w1)" by simp_all
  from apart_Name [OF counters_le_Names [OF cl]] Cons.prems(2) have ap1: "apart e job1" by simp
  from Cons.IH [OF inv1 ap1 fits1]
  have s1: "sorted_wrt (\<lambda>a b. counters_le (fst a) (fst b)) (trace e cs (job1, w1))"
    and a1: "list_all (\<lambda>st. counters_le job1 (fst st) \<and> count_inv e st \<and> apart e (fst st))
               (trace e cs (job1, w1))"
    by simp_all
  from a1 cl have a0: "list_all (\<lambda>st. counters_le job (fst st) \<and> count_inv e st \<and> apart e (fst st))
               (trace e cs (job1, w1))"
    using counters_le_trans by (auto simp: list_all_iff)
  from a0 have "\<forall>st \<in> set (trace e cs (job1, w1)). counters_le job (fst st)"
    by (simp add: list_all_iff)
  with s1 ac have "sorted_wrt (\<lambda>a b. counters_le (fst a) (fst b)) (trace e (c # cs) (job, w))"
    by simp
  moreover from a0 ac Cons.prems(1,2) counters_le_refl
  have "list_all (\<lambda>st. counters_le job (fst st) \<and> count_inv e st \<and> apart e (fst st))
               (trace e (c # cs) (job, w))"
    by simp
  ultimately show ?case by simp
qed

subsection \<open>Monotonic counters\<close>

text \<open>
  C5. A job made by \<open>New\<close> and \<open>AddFile\<close> has no count ahead of its local file,
  since every count starts at 0. From a job and a world where no count is ahead of its
  local file, along any sequence of calls of \<open>DownloadFile\<close> on files of the job and
  of \<open>ImportFiles\<close> on the job, the counters never decrease: of any two states of the
  trace, the later one has every \<open>BytesDownloaded\<close> at least as large, at least as
  many distinct keys in \<open>UploadedFiles\<close>, and \<open>UploadedPhotos\<close> larger by the number
  of keys appended, which is no decrease unless the \<open>int\<close> overflows; and in every
  state of the trace again no count is ahead of its local file. This holds when no file
  of the job is stored at the path of the record, which \<open>ImportFiles\<close> rewrites, and as
  long as the local files are shorter than \<open>2 ^ 63\<close> bytes.
\<close>

theorem counters_monotone:
  "count_inv e (New uuid now, w) \<and>
   (count_inv e (job, w) \<longrightarrow> count_inv e (AddFile driveID name sz job, w)) \<and>
   (count_inv e (job, w) \<and> apart e job \<and> list_all (sizes_fit e) (trace e cs (job, w)) \<longrightarrow>
      sorted_wrt (\<lambda>a b. counters_le (fst a) (fst b)) (trace e cs (job, w)) \<and>
      list_all (count_inv e) (trace e cs (job, w)) \<and>
      list_all (\<lambda>st. apart e (fst st)) (trace e cs (job, w)))"
proof -
  have a: "count_inv e (New uuid now, w)" by (simp add: count_inv_def New_def)
  have b: "count_inv e (job, w) \<longrightarrow> count_inv e (AddFile driveID name sz job, w)"
    by (simp add: count_inv_def AddFile_def)
  have c: "count_inv e (job, w) \<and> apart e job \<and> list_all (sizes_fit e) (trace e cs (job, w)) \<longrightarrow>
      sorted_wrt (\<lambda>a b. counters_le (fst a) (fst b)) (trace e cs (job, w)) \<and>
      list_all (count_inv e) (trace e cs (job, w)) \<and>
      list_all (\<lambda>st. apart e (fst st)) (trace e cs (job, w))"
  proof
    assume h: "count_inv e (job, w) \<and> apart e job \<and> list_all (sizes_fit e) (trace e cs (job, w))"
    then have "count_inv e (job, w)" "apart e job" "list_all (sizes_fit e) (trace e cs (job, w))"
      by simp_all
    from trace_all [OF this]
    show "sorted_wrt (\<lambda>a b. counters_le (fst a) (fst b)) (trace e cs (job, w)) \<and>
      list_all (count_inv e) (trace e cs (job, w)) \<and>
      list_all (\<lambda>st. apart e (fst st)) (trace e cs (job, w))"
      by (simp add: list_all_iff)
  qed
  show ?thesis by (rule conjI [OF a conjI [OF b c]])
qed

theorem counters_monotone_witness:
  "count_inv small_env (New ''job-1'' 3, empty_world) \<and>
   AddFile ''drive-1'' ''takeout.zip'' 10 (New ''job-1'' 3) = example_job \<and>
   count_inv small_env (example_job, empty_world) \<and> apart small_env example_job \<and>
   list_all (sizes_fit small_env)
     (trace small_env [Download 0, Download 0, Import, Download 0] (example_job, empty_world)) \<and>
   sorted_wrt (\<lambda>a b. counters_le (fst a) (fst b))
     (trace small_env [Download 0, Download 0, Import, Download 0] (example_job, empty_world)) \<and>
   list_all (count_inv small_env)
     (trace small_env [Download 0, Download 0, Import, Download 0] (example_job, empty_world)) \<and>
   map (\<lambda>st. (map BytesDownloaded (Files (fst st)), UploadedPhotos (init_upload (fst st)),
               length (UploadedFiles (init_upload (fst st)))))
     (trace small_env [Download 0, Download 0, Import, Download 0] (example_job, empty_world))
     = [([0], 0, 0), ([10], 0, 0), ([10], 0, 0), ([10], 2, 2), ([10], 2, 2)]"
proof -
  let ?cs = "[Download 0, Download 0, Import, Download 0]"
  note t = counters_monotone [where e = small_env and w = empty_world and uuid = "''job-1''"
      and now = 3 and job = "New ''job-1'' 3" and driveID = "''drive-1''"
      and name = "''takeout.zip''" and sz = 10]
  have n: "count_inv small_env (New ''job-1'' 3, empty_world)"
    using t [THEN conjunct1] .
  have eq: "AddFile ''drive-1'' ''takeout.zip'' 10 (New ''job-1'' 3) = example_job"
    by (simp add: AddFile_def example_defs)
  from t [THEN conjunct2, THEN conjunct1, THEN mp, OF n] eq
  have inv: "count_inv small_env (example_job, empty_world)" by simp
  have ap: "apart small_env example_job" by code_simp
  have fits: "list_all (sizes_fit small_env) (trace small_env ?cs (example_job, empty_world))"
    by code_simp
  from inv ap fits have h: "count_inv small_env (example_job, empty_world) \<and>
      apart small_env example_job \<and>
      list_all (sizes_fit small_env) (trace small_env ?cs (example_job, empty_world))"
    by (intro conjI)
  note c = counters_monotone [where e = small_env and w = empty_world and job = example_job
      and cs = ?cs, THEN conjunct2, THEN conjunct2, THEN mp, OF h]
  have ev: "map (\<lambda>st. (map BytesDownloaded (Files (fst st)), UploadedPhotos (init_upload (fst st)),
               length (UploadedFiles (init_upload (fst st)))))
     (trace small_env ?cs (example_job, empty_world))
     = [([0], 0, 0), ([10], 0, 0), ([10], 0, 0), ([10], 2, 2), ([10], 2, 2)]"
    by code_simp
  from n eq inv ap fits c [THEN conjunct1] c [THEN conjunct2, THEN conjunct1] ev
  show ?thesis by (intro conjI)
qed

text \<open>
  The invariant is needed. A count ahead of the local file is a state that no sequence
  of these calls brings about, but that a record kept from a run whose download was
  since removed or shortened has. From such a state a call can lower the count: with a
  count of 9 and five bytes on disk, a call that cannot reach the store returns with the
  count 5.
\<close>

lemma count_ahead_of_file_is_lowered:
  "\<not> count_inv offline_env (example_job\<lparr>Files := [stale_file]\<rparr>, half_world) \<and>
   BytesDownloaded stale_file = 9 \<and> files half_world takeout_zip = Some ''hello'' \<and>
   (case DownloadFile offline_env stale_file half_world of
      (r, fl, w) \<Rightarrow>
        r = Some (Wrapped ''failed to download'' (Failure ''connection refused'')) \<and>
        BytesDownloaded fl = 5 \<and>
        \<not> BytesDownloaded stale_file \<le>s BytesDownloaded fl)"
  by (simp add: count_inv_def local_len_def local_path_def DownloadFile_def GetDownloadDir_def
        appDataDir_def example_defs archive_defs half_world_def fetch_def DownloadFileRange_def
        word_sless_alt word_sle_eq Let_def)

end
